theory Spec2Isabelle
  imports Main
begin

section \<open>The conversation window controller of zara-ai (src/openai.py)\<close>

text \<open>
  The class \<open>OpenAIChatbot\<close> keeps an ordered list of messages, trims it against a
  token budget on every update, and drives the completion service through function
  calls, error recovery and one continuation request.

  The collaborators of the class are outside the repository and are parameters of
  the model: the tokenizer, \<open>json.loads\<close>, the registered functions, the callbacks and
  the completion service. Calls of the tokenizer, the callbacks and the service are
  taken to return; a registered function and \<open>json.loads\<close> may raise. The contents
  of messages and the results of registered functions are strings.

  The update is modelled twice. In the first model messages are values, every slot of
  a list holding its own message. The second model keeps the dictionaries in a store
  and the lists as lists of addresses, so that one dictionary can sit in several
  slots; the claim about the contents of the primer segment is settled there. The two
  agree wherever no message after the initial ones shares its dictionary with an
  initial message (\<open>update_view\<close>).
\<close>

subsection \<open>Collaborators\<close>

text \<open>
  \<open>Tokenizer()\<close> of the tokenizer package: \<open>count_tokens(text)\<close>, and
  \<open>tokenize(text)\<close> read through the \<open>.string\<close> of each token it yields.
\<close>

record tokenizer =
  tk_count :: "string \<Rightarrow> int"
  tk_tokenize :: "string \<Rightarrow> string list"

text \<open>
  The exceptions the code can raise. \<open>HandlerError d\<close> is an exception raised by a
  registered function, \<open>d\<close> being its \<open>str(e)\<close>; the others are raised by the
  interpreter or by \<open>json.loads\<close>.
\<close>

datatype exn =
    TypeError
  | IndexError
  | AttributeError
  | JSONDecodeError
  | HandlerError string

text \<open>
  A registered function takes the decoded arguments and returns its result
  (\<open>Inr\<close>) or raises (\<open>Inl\<close>, with the text of the exception). \<open>json.loads\<close>
  is a parameter as well: \<open>None\<close> is a decoding error.
\<close>

type_synonym json = string
type_synonym handler = "json \<Rightarrow> string + string"
type_synonym callback = string
type_synonym func_desc = string

record collaborators =
  tok :: tokenizer
  json_loads :: "string \<Rightarrow> json option"

subsection \<open>Messages, the chatbot object and the outside world\<close>

text \<open>
  A message is the dictionary \<open>{"role": ..., "content": ...}\<close>, with the key
  \<open>"name"\<close> only on messages built for the role \<open>function\<close>: \<open>name = None\<close> is
  the missing key, \<open>name = Some n\<close> the key holding \<open>n\<close> (which may be Python's
  \<open>None\<close>).
\<close>

record message =
  role :: string
  content :: string
  name :: "string option option"

text \<open>
  An attribute of the object that the constructor may never have assigned: reading
  it while \<open>Unset\<close> raises \<open>AttributeError\<close>.
\<close>

datatype 'a attribute = Unset | Assigned 'a

record chatbot =
  model :: string
  max_token_size :: int
  trim_message_callback :: "callback option"
  response_token_size :: "int option"
  functions' :: "func_desc list option"
  functions_callable :: "(string \<rightharpoonup> handler) option"
  initial_messages :: "message list"
  conversation_history :: "message list"
  error_callback :: "callback option attribute"

text \<open>
  What the completion service answers: \<open>response.choices[0].message\<close>, with its
  \<open>content\<close> (possibly null) and its \<open>function_call\<close> (possibly missing).
\<close>

record call_request =
  call_name :: string
  arguments :: string

record completion =
  reply_content :: "string option"
  function_call :: "call_request option"

text \<open>
  The effects on the outside world are recorded in a trace. The two places that
  call \<open>create_response\<close> are told apart: the request that opens
  \<open>generate_response\<close> and the continuation request.
\<close>

datatype site = Primary | Continuation

datatype event =
    Trim_callback_called
  | Error_callback_called string exn
  | Printed string
  | Completion_requested site "message list"

text \<open>
  The world holds the answers the completion service will give, in the order of the
  requests, and the trace of effects so far.
\<close>

record world =
  pending :: "completion list"
  trace :: "event list"

type_synonym state = "chatbot \<times> world"

subsection \<open>The constructor\<close>

text \<open>
  \<open>__init__\<close>. \<open>max_token_size or (16000 if use_large_model else 4000)\<close> takes the
  default for \<open>None\<close> and for \<open>0\<close>. The parameter \<open>error_callback\<close> is accepted and
  never stored, so the attribute stays unset.
\<close>

definition init ::
  "message list \<Rightarrow> bool \<Rightarrow> message list option \<Rightarrow> message list option \<Rightarrow>
   func_desc list option \<Rightarrow> (string \<rightharpoonup> handler) option \<Rightarrow> int option \<Rightarrow>
   callback option \<Rightarrow> callback option \<Rightarrow> int option \<Rightarrow> chatbot" where
  "init personality_primer use_large_model initial_messages_arg messages functions_arg
        functions_callable_arg max_token_size_arg trim_message_callback_arg
        error_callback_arg response_token_size_arg =
     (let primer =
            (case initial_messages_arg of
               None \<Rightarrow> personality_primer
             | Some ms \<Rightarrow> if ms \<noteq> [] then personality_primer @ ms else personality_primer);
          history =
            (case messages of
               None \<Rightarrow> primer
             | Some ms \<Rightarrow> if ms \<noteq> [] then primer @ ms else primer)
      in \<lparr> model = (if use_large_model then ''gpt-3.5-turbo-16k'' else ''gpt-3.5-turbo''),
           max_token_size =
             (case max_token_size_arg of
                None \<Rightarrow> (if use_large_model then 16000 else 4000)
              | Some m \<Rightarrow> if m = 0 then (if use_large_model then 16000 else 4000) else m),
           trim_message_callback = trim_message_callback_arg,
           response_token_size = response_token_size_arg,
           functions' = functions_arg,
           functions_callable = functions_callable_arg,
           initial_messages = primer,
           conversation_history = history,
           error_callback = Unset \<rparr>)"

subsection \<open>Counting tokens\<close>

definition count_tokens :: "tokenizer \<Rightarrow> message list \<Rightarrow> int" where
  "count_tokens T messages = sum_list (map (\<lambda>m. tk_count T (content m)) messages)"

subsection \<open>Updating and trimming the history\<close>

text \<open>
  \<open>list.pop(i)\<close> for an index \<open>i \<ge> 0\<close>, and \<open>xs[:k]\<close> for an integer \<open>k\<close>: a
  negative \<open>k\<close> drops the last \<open>-k\<close> elements.
\<close>

definition pop_at :: "nat \<Rightarrow> 'a list \<Rightarrow> exn + 'a list" where
  "pop_at i xs = (if i < length xs then Inr (take i xs @ drop (Suc i) xs) else Inl IndexError)"

definition slice_to :: "int \<Rightarrow> 'a list \<Rightarrow> 'a list" where
  "slice_to k xs =
     (if k < 0 then take (nat (int (length xs) + k)) xs else take (nat k) xs)"

definition new_message :: "string \<Rightarrow> string \<Rightarrow> string option \<Rightarrow> message" where
  "new_message role_arg message_content name_arg =
     (if role_arg = ''function''
      then \<lparr> role = role_arg, content = message_content, name = Some name_arg \<rparr>
      else \<lparr> role = role_arg, content = message_content, name = None \<rparr>)"

text \<open>
  The locals of the eviction loop: the object, \<open>available_tokens\<close> and
  \<open>callback_invoked\<close>. One iteration tests the loop condition (comparing with a
  \<open>response_token_size\<close> of \<open>None\<close> raises \<open>TypeError\<close>), then either pops the
  message at index \<open>len(self.initial_messages) + 1\<close> and recomputes, or leaves the
  loop.
\<close>

type_synonym loop_state = "chatbot \<times> int \<times> bool"

datatype iteration = Continue loop_state | Exit loop_state | Raised exn loop_state

definition trim_iteration :: "tokenizer \<Rightarrow> loop_state \<Rightarrow> iteration" where
  "trim_iteration T s =
     (case s of (b, available_tokens, callback_invoked) \<Rightarrow>
        (case response_token_size b of
           None \<Rightarrow> Raised TypeError s
         | Some reserve \<Rightarrow>
             if available_tokens < reserve then
               if length (conversation_history b) > length (initial_messages b) + 1 then
                 (case pop_at (length (initial_messages b) + 1) (conversation_history b) of
                    Inl e \<Rightarrow> Raised e s
                  | Inr h \<Rightarrow>
                      let b' = b\<lparr>conversation_history := h\<rparr>;
                          total_tokens = count_tokens T (conversation_history b');
                          available_tokens' = max_token_size b' - total_tokens;
                          callback_invoked' =
                            (if \<not> callback_invoked \<and> trim_message_callback b' \<noteq> None
                             then True else callback_invoked)
                      in Continue (b', available_tokens', callback_invoked'))
               else Exit s
             else Exit s))"

function trim_loop :: "tokenizer \<Rightarrow> loop_state \<Rightarrow> loop_state \<times> (exn + unit)" where
  "trim_loop T s =
     (case trim_iteration T s of
        Continue s' \<Rightarrow> trim_loop T s'
      | Exit s' \<Rightarrow> (s', Inr ())
      | Raised e s' \<Rightarrow> (s', Inl e))"
  by pat_completeness auto
termination
  by (relation "measure (\<lambda>(T, s). length (conversation_history (fst s)))")
     (auto simp: trim_iteration_def pop_at_def Let_def
           split: prod.splits option.splits if_splits sum.splits)

declare trim_loop.simps [simp del]

text \<open>
  The same loop with no termination argument: a run that never left the loop would
  be the value \<open>None\<close>.
\<close>

partial_function (option) trim_while ::
  "tokenizer \<Rightarrow> loop_state \<Rightarrow> (loop_state \<times> (exn + unit)) option" where
  "trim_while T s =
     (case trim_iteration T s of
        Continue s' \<Rightarrow> trim_while T s'
      | Exit s' \<Rightarrow> Some (s', Inr ())
      | Raised e s' \<Rightarrow> Some (s', Inl e))"

text \<open>
  \<open>update_conversation_history\<close> (lines 101-179). The result is the state the call
  leaves behind and either the exception it raised or the value it returned.
  \<open>append_message\<close> is the first step (lines 112-119), \<open>trim_loop\<close> the loop of the
  \<open>if\<close> branch (lines 130-149) and \<open>truncate_last\<close> the body of the \<open>elif\<close> branch
  (lines 157-177), where \<open>self.conversation_history[-1]\<close> is the last message.
\<close>

definition fire_trim_callback :: "world \<Rightarrow> world" where
  "fire_trim_callback w = w\<lparr>trace := trace w @ [Trim_callback_called]\<rparr>"

definition truncate_last :: "tokenizer \<Rightarrow> chatbot \<Rightarrow> world \<Rightarrow> int \<Rightarrow> state \<times> (exn + int)" where
  "truncate_last T b w available_tokens =
     (case response_token_size b of
        None \<Rightarrow> ((b, w), Inl TypeError)
      | Some reserve \<Rightarrow>
          if conversation_history b = [] then ((b, w), Inl IndexError)
          else
            let user_message = content (last (conversation_history b));
                text_tokens = tk_tokenize T user_message;
                available_tokens_for_message = available_tokens - reserve
            in if int (length text_tokens) > available_tokens_for_message then
                 let user_message' = concat (slice_to available_tokens_for_message text_tokens);
                     h = conversation_history b;
                     b' = b\<lparr>conversation_history :=
                              h[length h - 1 := (last h)\<lparr>content := user_message'\<rparr>]\<rparr>;
                     w' = (if trim_message_callback b' \<noteq> None
                           then fire_trim_callback w else w)
                 in ((b', w'), Inr reserve)
               else ((b, w), Inr available_tokens))"

definition append_message :: "string option \<Rightarrow> string \<Rightarrow> string option \<Rightarrow> chatbot \<Rightarrow> chatbot" where
  "append_message message_content role_arg name_arg b =
     (case message_content of
        None \<Rightarrow> b
      | Some c \<Rightarrow>
          b\<lparr>conversation_history :=
               conversation_history b @ [new_message role_arg c name_arg]\<rparr>)"

definition update_conversation_history ::
  "tokenizer \<Rightarrow> string option \<Rightarrow> string \<Rightarrow> string option \<Rightarrow> state \<Rightarrow> state \<times> (exn + int)" where
  "update_conversation_history T message_content role_arg name_arg s =
     (case s of (b0, w) \<Rightarrow>
        let b = append_message message_content role_arg name_arg b0;
            total_tokens = count_tokens T (conversation_history b);
            available_tokens = max_token_size b - total_tokens
        in if length (conversation_history b) > length (initial_messages b) + 1 then
             (case trim_loop T (b, available_tokens, False) of
                ((b', available_tokens', callback_invoked), Inl e) \<Rightarrow> ((b', w), Inl e)
              | ((b', available_tokens', callback_invoked), Inr u) \<Rightarrow>
                  if trim_message_callback b' \<noteq> None \<and> callback_invoked
                  then ((b', fire_trim_callback w), Inr available_tokens')
                  else ((b', w), Inr available_tokens'))
           else if length (conversation_history b) = length (initial_messages b) + 1 then
             (case response_token_size b of
                None \<Rightarrow> ((b, w), Inl TypeError)
              | Some reserve \<Rightarrow>
                  if available_tokens < reserve
                  then truncate_last T b w available_tokens
                  else ((b, w), Inr available_tokens))
           else ((b, w), Inr available_tokens))"

subsection \<open>Requesting completions\<close>

text \<open>
  \<open>create_response\<close> sends the history to the completion service and takes its
  next answer; \<open>None\<close> when the world holds no further answer. The transport is
  outside the model.
\<close>

definition create_response :: "site \<Rightarrow> state \<Rightarrow> (completion \<times> state) option" where
  "create_response at s =
     (case s of (b, w) \<Rightarrow>
        (case pending w of
           [] \<Rightarrow> None
         | r # rest \<Rightarrow>
             Some (r, (b, w\<lparr>pending := rest,
                              trace := trace w @
                                [Completion_requested at (conversation_history b)]\<rparr>))))"

text \<open>\<open>rollback\<close>: \<open>self.conversation_history.pop()\<close>.\<close>

definition rollback :: "state \<Rightarrow> state \<times> (exn + unit)" where
  "rollback s =
     (case s of (b, w) \<Rightarrow>
        if conversation_history b = [] then (s, Inl IndexError)
        else ((b\<lparr>conversation_history := butlast (conversation_history b)\<rparr>, w), Inr ()))"

text \<open>
  The end of \<open>generate_response\<close>, from \<open>reply = ...get("content")\<close> on:
  \<open>reply[-1]\<close> raises \<open>TypeError\<close> on \<open>None\<close> and \<open>IndexError\<close> on the empty
  string, and \<open>reply += continuation_reply\<close> raises \<open>TypeError\<close> when the
  continuation has no content.
\<close>

definition finish_reply ::
  "tokenizer \<Rightarrow> string option \<Rightarrow> state \<Rightarrow> (state \<times> (exn + string)) option" where
  "finish_reply T reply s =
     (case reply of
        None \<Rightarrow> Some (s, Inl TypeError)
      | Some text \<Rightarrow>
          if text = [] then Some (s, Inl IndexError)
          else if last text \<notin> {CHR ''.'', CHR ''!'', CHR ''?''} then
            (case update_conversation_history T (Some text) ''assistant'' None s of
               (s1, Inl e) \<Rightarrow> Some (s1, Inl e)
             | (s1, Inr available_tokens) \<Rightarrow>
                 if available_tokens > 0 then
                   (case create_response Continuation s1 of
                      None \<Rightarrow> None
                    | Some (continuation_response, s2) \<Rightarrow>
                        (case reply_content continuation_response of
                           None \<Rightarrow> Some (s2, Inl TypeError)
                         | Some continuation_reply \<Rightarrow>
                             Some (s2, Inr (text @ continuation_reply))))
                 else Some (s1, Inr text))
          else Some (s, Inr text))"

definition print_unrecognized :: "string \<Rightarrow> state \<Rightarrow> state" where
  "print_unrecognized func_name s =
     (case s of (b, w) \<Rightarrow>
        (b, w\<lparr>trace := trace w @
                 [Printed (''Function '' @ func_name @ '' is not recognized.'')]\<rparr>))"

definition call_error_callback :: "string \<Rightarrow> exn \<Rightarrow> state \<Rightarrow> state" where
  "call_error_callback func_name e s =
     (case s of (b, w) \<Rightarrow>
        (b, w\<lparr>trace := trace w @ [Error_callback_called func_name e]\<rparr>))"

definition apology :: "string \<Rightarrow> string" where
  "apology func_name =
     ''An error occurred when trying to execute the function '' @ [CHR 0x27] @ func_name @
     [CHR 0x27] @ ''. Please tell the user and apologize. (Don'' @ [CHR 0x27] @
     ''t ask to troubleshoot)''"

text \<open>
  \<open>respond\<close> (lines 261-275) and the body of \<open>generate_response\<close> (lines 181-246),
  with the recursive call \<open>self.generate_response()\<close> as the parameter \<open>gen\<close>. The
  \<open>try\<close> block holds
  the call of the registered function, the update and the recursive call; whatever
  one of them raises reaches the \<open>except\<close> clause with the state it left behind.
\<close>

definition respond_with ::
  "(state \<Rightarrow> (state \<times> (exn + string)) option) \<Rightarrow> tokenizer \<Rightarrow> string \<Rightarrow> state \<Rightarrow>
   (state \<times> (exn + string)) option" where
  "respond_with gen T user_message s =
     (case update_conversation_history T (Some user_message) ''user'' None s of
        (s1, Inl e) \<Rightarrow> Some (s1, Inl e)
      | (s1, Inr available_tokens) \<Rightarrow> gen s1)"

definition try_block ::
  "(state \<Rightarrow> (state \<times> (exn + string)) option) \<Rightarrow> tokenizer \<Rightarrow> handler \<Rightarrow> string \<Rightarrow>
   json \<Rightarrow> state \<Rightarrow> (state \<times> (exn + string)) option" where
  "try_block gen T callable func_name func_args s =
     (case callable func_args of
        Inl detail \<Rightarrow> Some (s, Inl (HandlerError detail))
      | Inr func_result \<Rightarrow>
          (case update_conversation_history T (Some func_result) ''function''
                  (Some func_name) s of
             (s1, Inl e) \<Rightarrow> Some (s1, Inl e)
           | (s1, Inr available_tokens) \<Rightarrow> gen s1))"

definition except_block ::
  "(state \<Rightarrow> (state \<times> (exn + string)) option) \<Rightarrow> tokenizer \<Rightarrow> string \<Rightarrow> exn \<Rightarrow>
   state \<Rightarrow> (state \<times> (exn + string)) option" where
  "except_block gen T func_name e s =
     (case error_callback (fst s) of
        Unset \<Rightarrow> Some (s, Inl AttributeError)
      | Assigned cb \<Rightarrow>
          (case rollback (if cb \<noteq> None then call_error_callback func_name e s else s) of
             (s1, Inl e') \<Rightarrow> Some (s1, Inl e')
           | (s1, Inr u) \<Rightarrow> respond_with gen T (apology func_name) s1))"

definition generate_response_body ::
  "(state \<Rightarrow> (state \<times> (exn + string)) option) \<Rightarrow> collaborators \<Rightarrow> state \<Rightarrow>
   (state \<times> (exn + string)) option" where
  "generate_response_body gen E s =
     (case create_response Primary s of
        None \<Rightarrow> None
      | Some (response, s1) \<Rightarrow>
          (case function_call response of
             None \<Rightarrow> finish_reply (tok E) (reply_content response) s1
           | Some func \<Rightarrow>
               (case json_loads E (arguments func) of
                  None \<Rightarrow> Some (s1, Inl JSONDecodeError)
                | Some func_args \<Rightarrow>
                    (case functions_callable (fst s1) of
                       None \<Rightarrow> Some (s1, Inl TypeError)
                     | Some registry \<Rightarrow>
                         (case registry (call_name func) of
                            None \<Rightarrow>
                              finish_reply (tok E) (reply_content response)
                                (print_unrecognized (call_name func) s1)
                          | Some callable \<Rightarrow>
                              (case try_block gen (tok E) callable (call_name func)
                                      func_args s1 of
                                 None \<Rightarrow> None
                               | Some (s2, Inr reply) \<Rightarrow> Some (s2, Inr reply)
                               | Some (s2, Inl e) \<Rightarrow>
                                   except_block gen (tok E) (call_name func) e s2))))))"

text \<open>
  \<open>generate_response\<close> calls itself for as long as the service asks for functions.
  The first argument bounds the depth of these calls; \<open>None\<close> is a run that needs
  more depth, or more answers than the world holds.
\<close>

primrec generate_response ::
  "nat \<Rightarrow> collaborators \<Rightarrow> state \<Rightarrow> (state \<times> (exn + string)) option" where
  "generate_response 0 E = (\<lambda>s. None)"
| "generate_response (Suc depth) E = generate_response_body (generate_response depth E) E"

definition respond ::
  "nat \<Rightarrow> collaborators \<Rightarrow> string \<Rightarrow> state \<Rightarrow> (state \<times> (exn + string)) option" where
  "respond depth E user_message s =
     respond_with (generate_response depth E) (tok E) user_message s"

subsection \<open>The update over shared message objects\<close>

text \<open>
  A Python list holds references. \<open>__init__\<close> stores the caller's dictionaries
  themselves (lines 65-75: \<open>self.initial_messages.copy()\<close> copies the list, not the
  dictionaries), \<open>append\<close> and \<open>pop\<close> move references, and lines 169-171 assign
  into the last dictionary of the history in place. Where a claim depends on which
  slots share a dictionary, the update is read over a store: \<open>objects\<close> holds the
  dictionaries by address, the two lists hold addresses, and a new message gets the
  next free address. Only the attributes that the update reads are kept.
\<close>

record shared_chatbot =
  objects :: "message list"
  initial_refs :: "nat list"
  history_refs :: "nat list"
  shared_max_token_size :: int
  shared_response_token_size :: "int option"
  shared_trim_message_callback :: "callback option"

definition messages_at :: "message list \<Rightarrow> nat list \<Rightarrow> message list" where
  "messages_at objs refs = map (\<lambda>a. objs ! a) refs"

text \<open>Every reference of a Python list points to an object.\<close>

definition refs_valid :: "shared_chatbot \<Rightarrow> bool" where
  "refs_valid c =
     list_all (\<lambda>a. a < length (objects c)) (initial_refs c @ history_refs c)"

text \<open>
  \<open>__init__\<close> over the store \<open>objs\<close> of the dictionaries the caller passes, each
  argument list given by the addresses of its elements.
\<close>

definition shared_init ::
  "message list \<Rightarrow> nat list \<Rightarrow> nat list option \<Rightarrow> nat list option \<Rightarrow> bool \<Rightarrow>
   int option \<Rightarrow> callback option \<Rightarrow> int option \<Rightarrow> shared_chatbot" where
  "shared_init objs personality_primer initial_messages_arg messages use_large_model
        max_token_size_arg trim_message_callback_arg response_token_size_arg =
     (let primer =
            (case initial_messages_arg of
               None \<Rightarrow> personality_primer
             | Some ms \<Rightarrow> if ms \<noteq> [] then personality_primer @ ms else personality_primer);
          history =
            (case messages of
               None \<Rightarrow> primer
             | Some ms \<Rightarrow> if ms \<noteq> [] then primer @ ms else primer)
      in \<lparr> objects = objs,
           initial_refs = primer,
           history_refs = history,
           shared_max_token_size =
             (case max_token_size_arg of
                None \<Rightarrow> (if use_large_model then 16000 else 4000)
              | Some m \<Rightarrow> if m = 0 then (if use_large_model then 16000 else 4000) else m),
           shared_response_token_size = response_token_size_arg,
           shared_trim_message_callback = trim_message_callback_arg \<rparr>)"

type_synonym shared_loop_state = "shared_chatbot \<times> int \<times> bool"

datatype shared_iteration =
    Shared_continue shared_loop_state
  | Shared_exit shared_loop_state
  | Shared_raised exn shared_loop_state

definition shared_trim_iteration :: "tokenizer \<Rightarrow> shared_loop_state \<Rightarrow> shared_iteration" where
  "shared_trim_iteration T s =
     (case s of (c, available_tokens, callback_invoked) \<Rightarrow>
        (case shared_response_token_size c of
           None \<Rightarrow> Shared_raised TypeError s
         | Some reserve \<Rightarrow>
             if available_tokens < reserve then
               if length (history_refs c) > length (initial_refs c) + 1 then
                 (case pop_at (length (initial_refs c) + 1) (history_refs c) of
                    Inl e \<Rightarrow> Shared_raised e s
                  | Inr h \<Rightarrow>
                      let c' = c\<lparr>history_refs := h\<rparr>;
                          total_tokens =
                            count_tokens T (messages_at (objects c') (history_refs c'));
                          available_tokens' = shared_max_token_size c' - total_tokens;
                          callback_invoked' =
                            (if \<not> callback_invoked \<and> shared_trim_message_callback c' \<noteq> None
                             then True else callback_invoked)
                      in Shared_continue (c', available_tokens', callback_invoked'))
               else Shared_exit s
             else Shared_exit s))"

function shared_trim_loop ::
  "tokenizer \<Rightarrow> shared_loop_state \<Rightarrow> shared_loop_state \<times> (exn + unit)" where
  "shared_trim_loop T s =
     (case shared_trim_iteration T s of
        Shared_continue s' \<Rightarrow> shared_trim_loop T s'
      | Shared_exit s' \<Rightarrow> (s', Inr ())
      | Shared_raised e s' \<Rightarrow> (s', Inl e))"
  by pat_completeness auto
termination
  by (relation "measure (\<lambda>(T, s). length (history_refs (fst s)))")
     (auto simp: shared_trim_iteration_def pop_at_def Let_def
           split: prod.splits option.splits if_splits sum.splits)

declare shared_trim_loop.simps [simp del]

definition shared_append_message ::
  "string option \<Rightarrow> string \<Rightarrow> string option \<Rightarrow> shared_chatbot \<Rightarrow> shared_chatbot" where
  "shared_append_message message_content role_arg name_arg c =
     (case message_content of
        None \<Rightarrow> c
      | Some txt \<Rightarrow>
          c\<lparr>objects := objects c @ [new_message role_arg txt name_arg],
            history_refs := history_refs c @ [length (objects c)]\<rparr>)"

definition shared_truncate_last ::
  "tokenizer \<Rightarrow> shared_chatbot \<Rightarrow> world \<Rightarrow> int \<Rightarrow>
   (shared_chatbot \<times> world) \<times> (exn + int)" where
  "shared_truncate_last T c w available_tokens =
     (case shared_response_token_size c of
        None \<Rightarrow> ((c, w), Inl TypeError)
      | Some reserve \<Rightarrow>
          if history_refs c = [] then ((c, w), Inl IndexError)
          else
            let a = last (history_refs c);
                user_message = content (objects c ! a);
                text_tokens = tk_tokenize T user_message;
                available_tokens_for_message = available_tokens - reserve
            in if int (length text_tokens) > available_tokens_for_message then
                 let user_message' = concat (slice_to available_tokens_for_message text_tokens);
                     c' = c\<lparr>objects :=
                              (objects c)[a := (objects c ! a)\<lparr>content := user_message'\<rparr>]\<rparr>;
                     w' = (if shared_trim_message_callback c' \<noteq> None
                           then fire_trim_callback w else w)
                 in ((c', w'), Inr reserve)
               else ((c, w), Inr available_tokens))"

definition shared_update_conversation_history ::
  "tokenizer \<Rightarrow> string option \<Rightarrow> string \<Rightarrow> string option \<Rightarrow> shared_chatbot \<times> world \<Rightarrow>
   (shared_chatbot \<times> world) \<times> (exn + int)" where
  "shared_update_conversation_history T message_content role_arg name_arg s =
     (case s of (c0, w) \<Rightarrow>
        let c = shared_append_message message_content role_arg name_arg c0;
            total_tokens = count_tokens T (messages_at (objects c) (history_refs c));
            available_tokens = shared_max_token_size c - total_tokens
        in if length (history_refs c) > length (initial_refs c) + 1 then
             (case shared_trim_loop T (c, available_tokens, False) of
                ((c', available_tokens', callback_invoked), Inl e) \<Rightarrow> ((c', w), Inl e)
              | ((c', available_tokens', callback_invoked), Inr u) \<Rightarrow>
                  if shared_trim_message_callback c' \<noteq> None \<and> callback_invoked
                  then ((c', fire_trim_callback w), Inr available_tokens')
                  else ((c', w), Inr available_tokens'))
           else if length (history_refs c) = length (initial_refs c) + 1 then
             (case shared_response_token_size c of
                None \<Rightarrow> ((c, w), Inl TypeError)
              | Some reserve \<Rightarrow>
                  if available_tokens < reserve
                  then shared_truncate_last T c w available_tokens
                  else ((c, w), Inr available_tokens))
           else ((c, w), Inr available_tokens))"

text \<open>
  The view of a store as values: what the lists hold, slot by slot, the other
  attributes taken from \<open>b\<close>.
\<close>

definition view :: "chatbot \<Rightarrow> shared_chatbot \<Rightarrow> chatbot" where
  "view b c =
     b\<lparr> max_token_size := shared_max_token_size c,
        trim_message_callback := shared_trim_message_callback c,
        response_token_size := shared_response_token_size c,
        initial_messages := messages_at (objects c) (initial_refs c),
        conversation_history := messages_at (objects c) (history_refs c) \<rparr>"

fun view_iteration :: "chatbot \<Rightarrow> shared_iteration \<Rightarrow> iteration" where
  "view_iteration b (Shared_continue (c, a, cb)) = Continue (view b c, a, cb)"
| "view_iteration b (Shared_exit (c, a, cb)) = Exit (view b c, a, cb)"
| "view_iteration b (Shared_raised e (c, a, cb)) = Raised e (view b c, a, cb)"

text \<open>
  No message after the initial ones is the same object as one of the initial
  messages (in \<open>initial_messages\<close> or in the first slots of the history).
\<close>

definition primer_unshared :: "shared_chatbot \<Rightarrow> bool" where
  "primer_unshared c =
     list_all
       (\<lambda>a. a \<notin> set (initial_refs c) \<and>
            a \<notin> set (take (length (initial_refs c)) (history_refs c)))
       (drop (length (initial_refs c)) (history_refs c))"

subsection \<open>Observations and a concrete tokenizer\<close>

text \<open>How many continuations were requested so far.\<close>

fun is_continuation :: "event \<Rightarrow> bool" where
  "is_continuation (Completion_requested Continuation h) = True"
| "is_continuation e = False"

definition continuations :: "world \<Rightarrow> nat" where
  "continuations w = length (filter is_continuation (trace w))"

text \<open>
  A tokenizer for concrete runs: every character is one token. The environment
  \<open>plain_env\<close> uses it and decodes every argument text to itself.
\<close>

definition char_tokenizer :: tokenizer where
  "char_tokenizer = \<lparr> tk_count = (\<lambda>s. int (length s)), tk_tokenize = map (\<lambda>c. [c]) \<rparr>"

definition plain_env :: collaborators where
  "plain_env = \<lparr> tok = char_tokenizer, json_loads = Some \<rparr>"

definition quiet_world :: world where
  "quiet_world = \<lparr> pending = [], trace = [] \<rparr>"

definition system_message :: "string \<Rightarrow> message" where
  "system_message c = \<lparr> role = ''system'', content = c, name = None \<rparr>"

definition user_message :: "string \<Rightarrow> message" where
  "user_message c = \<lparr> role = ''user'', content = c, name = None \<rparr>"

definition failing_lookup :: handler where
  "failing_lookup func_args = Inl ''lookup failed''"

definition constant_handler :: "string \<Rightarrow> handler" where
  "constant_handler result func_args = Inr result"

definition call_of :: "string \<Rightarrow> completion" where
  "call_of func_name =
     \<lparr> reply_content = None,
       function_call = Some \<lparr> call_name = func_name, arguments = ''{}'' \<rparr> \<rparr>"

definition text_of :: "string \<Rightarrow> completion" where
  "text_of c = \<lparr> reply_content = Some c, function_call = None \<rparr>"

lemmas shared_defs =
  shared_update_conversation_history_def shared_truncate_last_def shared_trim_loop.simps
  shared_trim_iteration_def shared_append_message_def shared_init_def messages_at_def
  refs_valid_def primer_unshared_def

lemmas run_defs =
  update_conversation_history_def truncate_last_def trim_loop.simps trim_iteration_def
  pop_at_def slice_to_def append_message_def new_message_def count_tokens_def
  fire_trim_callback_def
  init_def char_tokenizer_def plain_env_def quiet_world_def
  system_message_def user_message_def Let_def

lemmas respond_defs =
  respond_def respond_with_def generate_response_body_def create_response_def
  try_block_def except_block_def finish_reply_def print_unrecognized_def
  call_error_callback_def rollback_def apology_def failing_lookup_def
  constant_handler_def call_of_def text_of_def

section \<open>The eviction loop\<close>

text \<open>What one iteration does, by its three outcomes.\<close>

lemma trim_iteration_Continue:
  assumes "trim_iteration T (b, a, c) = Continue (b', a', c')"
  shows "\<exists>reserve. response_token_size b = Some reserve \<and> a < reserve"
    and "length (initial_messages b) + 1 < length (conversation_history b)"
    and "b' = b\<lparr>conversation_history :=
                  take (length (initial_messages b) + 1) (conversation_history b) @
                  drop (length (initial_messages b) + 2) (conversation_history b)\<rparr>"
    and "a' = max_token_size b - count_tokens T (conversation_history b')"
    and "c' = (c \<or> trim_message_callback b \<noteq> None)"
  using assms
  by (auto simp: trim_iteration_def pop_at_def Let_def
           split: option.splits if_splits sum.splits)

lemma trim_iteration_Exit:
  assumes "trim_iteration T (b, a, c) = Exit s'"
  shows "s' = (b, a, c)"
    and "\<exists>reserve. response_token_size b = Some reserve \<and>
           (reserve \<le> a \<or> length (conversation_history b) \<le> length (initial_messages b) + 1)"
  using assms
  by (auto simp: trim_iteration_def pop_at_def Let_def
           split: option.splits if_splits sum.splits)

lemma trim_iteration_Raised:
  assumes "trim_iteration T (b, a, c) = Raised e s'"
  shows "s' = (b, a, c)" and "e = TypeError" and "response_token_size b = None"
  using assms
  by (auto simp: trim_iteration_def pop_at_def Let_def
           split: option.splits if_splits sum.splits)

lemma trim_loop_frame:
  "trim_loop T s = (s', r) \<Longrightarrow>
     fst s' = (fst s)\<lparr>conversation_history := conversation_history (fst s')\<rparr> \<and>
     take (length (initial_messages (fst s)) + 1) (conversation_history (fst s')) =
       take (length (initial_messages (fst s)) + 1) (conversation_history (fst s)) \<and>
     length (conversation_history (fst s')) \<le> length (conversation_history (fst s)) \<and>
     (length (initial_messages (fst s)) + 1 \<le> length (conversation_history (fst s)) \<longrightarrow>
      length (initial_messages (fst s)) + 1 \<le> length (conversation_history (fst s')))"
proof (induction T s arbitrary: s' r rule: trim_loop.induct)
  case (1 T s)
  obtain b a c where s: "s = (b, a, c)" by (cases s) auto
  show ?case
  proof (cases "trim_iteration T s")
    case (Continue x)
    obtain b1 a1 c1 where x: "x = (b1, a1, c1)" by (cases x) auto
    from Continue "1.prems" have loop: "trim_loop T x = (s', r)"
      by (subst (asm) trim_loop.simps) simp
    note ih = "1.IH"[OF Continue loop]
    note step = trim_iteration_Continue[OF Continue[unfolded s x]]
    from ih step(2,3) show ?thesis
      by (auto simp: s x min_def)
  next
    case (Exit x)
    with "1.prems" have "s' = x" by (subst (asm) trim_loop.simps) simp
    with trim_iteration_Exit(1)[OF Exit[unfolded s]] show ?thesis by (simp add: s)
  next
    case (Raised e x)
    with "1.prems" have "s' = x" by (subst (asm) trim_loop.simps) simp
    with trim_iteration_Raised(1)[OF Raised[unfolded s]] show ?thesis by (simp add: s)
  qed
qed


lemma trim_loop_locals:
  "trim_loop T s = (s', r) \<Longrightarrow>
     (snd (snd s') = (snd (snd s) \<or>
        (trim_message_callback (fst s) \<noteq> None \<and>
         length (conversation_history (fst s')) < length (conversation_history (fst s))))) \<and>
     (length (conversation_history (fst s')) < length (conversation_history (fst s)) \<longrightarrow>
        fst (snd s') = max_token_size (fst s) - count_tokens T (conversation_history (fst s'))) \<and>
     (length (conversation_history (fst s')) = length (conversation_history (fst s)) \<longrightarrow>
        s' = s)"
proof (induction T s arbitrary: s' r rule: trim_loop.induct)
  case (1 T s)
  obtain b a c where s: "s = (b, a, c)" by (cases s) auto
  show ?case
  proof (cases "trim_iteration T s")
    case (Continue x)
    obtain b1 a1 c1 where x: "x = (b1, a1, c1)" by (cases x) auto
    from Continue "1.prems" have loop: "trim_loop T x = (s', r)"
      by (subst (asm) trim_loop.simps) simp
    note ih = "1.IH"[OF Continue loop]
    note step = trim_iteration_Continue[OF Continue[unfolded s x]]
    from trim_loop_frame[OF loop] have le: "length (conversation_history (fst s')) \<le> length (conversation_history b1)"
      by (simp add: x)
    from step(2,3) have lt: "length (conversation_history b1) < length (conversation_history b)"
      by auto
    from step(3) have same: "max_token_size b1 = max_token_size b"
      "trim_message_callback b1 = trim_message_callback b" by auto
    from ih le lt step(4,5) same show ?thesis
      by (auto simp: s x)
  next
    case (Exit x)
    with "1.prems" have "s' = x" by (subst (asm) trim_loop.simps) simp
    with trim_iteration_Exit(1)[OF Exit[unfolded s]] show ?thesis by (simp add: s)
  next
    case (Raised e x)
    with "1.prems" have "s' = x" by (subst (asm) trim_loop.simps) simp
    with trim_iteration_Raised(1)[OF Raised[unfolded s]] show ?thesis by (simp add: s)
  qed
qed

lemma trim_loop_returns:
  "trim_loop T s = (s', Inr u) \<Longrightarrow>
     \<exists>reserve. response_token_size (fst s) = Some reserve \<and>
       (reserve \<le> fst (snd s') \<or>
        length (conversation_history (fst s')) \<le> length (initial_messages (fst s)) + 1)"
proof (induction T s arbitrary: s' rule: trim_loop.induct)
  case (1 T s)
  obtain b a c where s: "s = (b, a, c)" by (cases s) auto
  show ?case
  proof (cases "trim_iteration T s")
    case (Continue x)
    obtain b1 a1 c1 where x: "x = (b1, a1, c1)" by (cases x) auto
    from Continue "1.prems" have loop: "trim_loop T x = (s', Inr u)"
      by (subst (asm) trim_loop.simps) simp
    note ih = "1.IH"[OF Continue loop]
    note step = trim_iteration_Continue[OF Continue[unfolded s x]]
    from step(3) have same: "response_token_size b1 = response_token_size b"
      "initial_messages b1 = initial_messages b" by auto
    from ih same show ?thesis by (simp add: s x)
  next
    case (Exit x)
    with "1.prems" have "s' = x" by (subst (asm) trim_loop.simps) simp
    with trim_iteration_Exit[OF Exit[unfolded s]] show ?thesis by (auto simp: s)
  next
    case (Raised e x)
    with "1.prems" show ?thesis by (subst (asm) trim_loop.simps) simp
  qed
qed

lemma trim_loop_raises:
  "trim_loop T s = (s', Inl e) \<Longrightarrow>
     e = TypeError \<and> response_token_size (fst s) = None \<and> s' = s"
proof (induction T s arbitrary: s' rule: trim_loop.induct)
  case (1 T s)
  obtain b a c where s: "s = (b, a, c)" by (cases s) auto
  show ?case
  proof (cases "trim_iteration T s")
    case (Continue x)
    obtain b1 a1 c1 where x: "x = (b1, a1, c1)" by (cases x) auto
    from Continue "1.prems" have loop: "trim_loop T x = (s', Inl e)"
      by (subst (asm) trim_loop.simps) simp
    note ih = "1.IH"[OF Continue loop]
    note step = trim_iteration_Continue[OF Continue[unfolded s x]]
    from step(3) have same: "response_token_size b1 = response_token_size b" by auto
    from ih same step(1) show ?thesis by (simp add: s x)
  next
    case (Exit x)
    with "1.prems" show ?thesis by (subst (asm) trim_loop.simps) simp
  next
    case (Raised e' x)
    with "1.prems" have "s' = x" "e = e'" by (subst (asm) trim_loop.simps; simp)+
    with trim_iteration_Raised[OF Raised[unfolded s]] show ?thesis by (auto simp: s)
  qed
qed

lemma trim_while_eq: "trim_while T s = Some (trim_loop T s)"
proof (induction T s rule: trim_loop.induct)
  case (1 T s)
  show ?case
  proof (cases "trim_iteration T s")
    case (Continue x)
    with "1.IH"[OF Continue] show ?thesis
      by (subst trim_while.simps, subst trim_loop.simps) simp
  next
    case (Exit x)
    then show ?thesis by (subst trim_while.simps, subst trim_loop.simps) simp
  next
    case (Raised e x)
    then show ?thesis by (subst trim_while.simps, subst trim_loop.simps) simp
  qed
qed



section \<open>The update, branch by branch\<close>

lemma trim_loop_fields:
  assumes "trim_loop T (b, a, c) = ((b', a', c'), res)"
  shows "initial_messages b' = initial_messages b"
    and "max_token_size b' = max_token_size b"
    and "trim_message_callback b' = trim_message_callback b"
    and "response_token_size b' = response_token_size b"
    and "functions_callable b' = functions_callable b"
    and "error_callback b' = error_callback b"
proof -
  from trim_loop_frame[OF assms]
  have eq: "b' = b\<lparr>conversation_history := conversation_history b'\<rparr>" by simp
  show "initial_messages b' = initial_messages b"
    using arg_cong[OF eq, of initial_messages] by simp
  show "max_token_size b' = max_token_size b"
    using arg_cong[OF eq, of max_token_size] by simp
  show "trim_message_callback b' = trim_message_callback b"
    using arg_cong[OF eq, of trim_message_callback] by simp
  show "response_token_size b' = response_token_size b"
    using arg_cong[OF eq, of response_token_size] by simp
  show "functions_callable b' = functions_callable b"
    using arg_cong[OF eq, of functions_callable] by simp
  show "error_callback b' = error_callback b"
    using arg_cong[OF eq, of error_callback] by simp
qed

lemma append_message_fields:
  "initial_messages (append_message mc r nm b) = initial_messages b"
  "max_token_size (append_message mc r nm b) = max_token_size b"
  "trim_message_callback (append_message mc r nm b) = trim_message_callback b"
  "response_token_size (append_message mc r nm b) = response_token_size b"
  "functions_callable (append_message mc r nm b) = functions_callable b"
  "error_callback (append_message mc r nm b) = error_callback b"
  by (auto simp: append_message_def split: option.splits)

lemma append_message_history:
  "take (length (conversation_history b)) (conversation_history (append_message mc r nm b)) =
     conversation_history b"
  "length (conversation_history (append_message mc r nm b)) =
     length (conversation_history b) + (case mc of None \<Rightarrow> 0 | Some c \<Rightarrow> 1)"
  by (auto simp: append_message_def split: option.splits)

text \<open>The three ways through update, by the length of the history after the append.\<close>

lemma update_evicting:
  assumes "b1 = append_message mc r nm b"
    and "length (initial_messages b) + 1 < length (conversation_history b1)"
    and "trim_loop T (b1, max_token_size b - count_tokens T (conversation_history b1), False) =
           ((b', a', c'), res)"
  shows "update_conversation_history T mc r nm (b, w) =
           ((b', if res = Inr () \<and> trim_message_callback b \<noteq> None \<and> c'
                 then fire_trim_callback w else w),
            (case res of Inl e \<Rightarrow> Inl e | Inr u \<Rightarrow> Inr a'))"
  using assms trim_loop_fields(3)[OF assms(3)]
  by (cases res) (auto simp: update_conversation_history_def Let_def append_message_fields)

lemma update_single:
  assumes "b1 = append_message mc r nm b"
    and "length (conversation_history b1) = length (initial_messages b) + 1"
  shows "update_conversation_history T mc r nm (b, w) =
           (case response_token_size b of
              None \<Rightarrow> ((b1, w), Inl TypeError)
            | Some reserve \<Rightarrow>
                if max_token_size b - count_tokens T (conversation_history b1) < reserve then
                  ((b1\<lparr>conversation_history :=
                         (conversation_history b1)[length (initial_messages b) :=
                            (last (conversation_history b1))\<lparr>content :=
                               concat (slice_to
                                 (max_token_size b - count_tokens T (conversation_history b1) - reserve)
                                 (tk_tokenize T (content (last (conversation_history b1)))))\<rparr>]\<rparr>,
                    if trim_message_callback b \<noteq> None then fire_trim_callback w else w),
                   Inr reserve)
                else ((b1, w), Inr (max_token_size b - count_tokens T (conversation_history b1))))"
proof -
  from assms(2) have ne: "conversation_history b1 \<noteq> []" by auto
  from assms ne show ?thesis
    by (auto simp: update_conversation_history_def truncate_last_def Let_def
                   append_message_fields split: option.splits)
qed

lemma update_short:
  assumes "b1 = append_message mc r nm b"
    and "length (conversation_history b1) < length (initial_messages b) + 1"
  shows "update_conversation_history T mc r nm (b, w) =
           ((b1, w), Inr (max_token_size b - count_tokens T (conversation_history b1)))"
  using assms
  by (auto simp: update_conversation_history_def Let_def append_message_fields)

text \<open>Token counts around the truncation of the last message.\<close>

lemma count_tokens_single:
  assumes "length h = n + 1"
  shows "count_tokens T (h[n := m]) = count_tokens T (take n h) + tk_count T (content m)"
    and "count_tokens T h = count_tokens T (take n h) + tk_count T (content (last h))"
proof -
  from assms have h: "h = take n h @ [last h]"
    by (metis Suc_eq_plus1 append_butlast_last_id butlast_conv_take diff_Suc_1 length_0_conv nat.simps(3))
  from assms have len: "length (take n h) = n" by simp
  have "h[n := m] = take n h @ [m]"
    by (subst h) (simp add: list_update_append len del: length_take)
  then show "count_tokens T (h[n := m]) = count_tokens T (take n h) + tk_count T (content m)"
    by (simp add: count_tokens_def)
  from h have "count_tokens T h = count_tokens T (take n h @ [last h])" by simp
  then show "count_tokens T h = count_tokens T (take n h) + tk_count T (content (last h))"
    by (simp add: count_tokens_def)
qed

lemma truncation_fits:
  assumes len: "length h = n + 1"
    and k: "k = M - count_tokens T h - reserve" "k < 0"
    and primer: "count_tokens T (take n h) + reserve \<le> M"
    and toks: "int (length (tk_tokenize T (content (last h)))) \<le> tk_count T (content (last h))"
    and joined: "tk_count T (concat (slice_to k (tk_tokenize T (content (last h))))) \<le>
                 int (length (slice_to k (tk_tokenize T (content (last h)))))"
  shows "count_tokens T (h[n := (last h)\<lparr>content :=
            concat (slice_to k (tk_tokenize T (content (last h))))\<rparr>]) + reserve \<le> M"
proof -
  let ?toks = "tk_tokenize T (content (last h))"
  have "nat (int (length ?toks) + k) \<le> length ?toks"
    using k(2) by linarith
  then have "int (length (slice_to k ?toks)) = int (nat (int (length ?toks) + k))"
    using k(2) by (simp add: slice_to_def)
  also have "\<dots> \<le> max 0 (tk_count T (content (last h)) + k)"
    using toks by simp
  finally have "tk_count T (concat (slice_to k ?toks)) \<le> max 0 (tk_count T (content (last h)) + k)"
    using joined by simp
  with count_tokens_single[OF len, of T] k(1) primer show ?thesis
    by (simp add: max_def split: if_splits)
qed

lemma content_new_message: "content (new_message r c nm) = c"
  by (simp add: new_message_def)

section \<open>The eviction loop over shared objects\<close>

text \<open>The loop moves references only: the store and the initial references stay.\<close>

lemma shared_trim_iteration_Continue:
  assumes "shared_trim_iteration T (c, a, cb) = Shared_continue (c', a', cb')"
  shows "\<exists>reserve. shared_response_token_size c = Some reserve \<and> a < reserve"
    and "length (initial_refs c) + 1 < length (history_refs c)"
    and "c' = c\<lparr>history_refs :=
                  take (length (initial_refs c) + 1) (history_refs c) @
                  drop (length (initial_refs c) + 2) (history_refs c)\<rparr>"
  using assms
  by (auto simp: shared_trim_iteration_def pop_at_def Let_def
           split: option.splits if_splits sum.splits)

lemma shared_trim_iteration_stops:
  "shared_trim_iteration T s = Shared_exit s' \<Longrightarrow> s' = s"
  "shared_trim_iteration T s = Shared_raised e s' \<Longrightarrow> s' = s"
  by (auto simp: shared_trim_iteration_def pop_at_def Let_def
           split: prod.splits option.splits if_splits sum.splits)

lemma shared_trim_loop_frame:
  "shared_trim_loop T s = (s', r) \<Longrightarrow>
     fst s' = (fst s)\<lparr>history_refs := history_refs (fst s')\<rparr> \<and>
     take (length (initial_refs (fst s)) + 1) (history_refs (fst s')) =
       take (length (initial_refs (fst s)) + 1) (history_refs (fst s))"
proof (induction T s arbitrary: s' r rule: shared_trim_loop.induct)
  case (1 T s)
  obtain c a cb where s: "s = (c, a, cb)" by (cases s) auto
  show ?case
  proof (cases "shared_trim_iteration T s")
    case (Shared_continue x)
    obtain c1 a1 cb1 where x: "x = (c1, a1, cb1)" by (cases x) auto
    from Shared_continue "1.prems" have loop: "shared_trim_loop T x = (s', r)"
      by (subst (asm) shared_trim_loop.simps) simp
    note ih = "1.IH"[OF Shared_continue loop]
    note step = shared_trim_iteration_Continue[OF Shared_continue[unfolded s x]]
    from ih step(2,3) show ?thesis
      by (auto simp: s x min_def)
  next
    case (Shared_exit x)
    with "1.prems" have "s' = x" by (subst (asm) shared_trim_loop.simps) simp
    with shared_trim_iteration_stops(1)[OF Shared_exit] show ?thesis by simp
  next
    case (Shared_raised e x)
    with "1.prems" have "s' = x" by (subst (asm) shared_trim_loop.simps) simp
    with shared_trim_iteration_stops(2)[OF Shared_raised] show ?thesis by simp
  qed
qed

lemma shared_trim_loop_fields:
  assumes "shared_trim_loop T (c, a, cb) = ((c', a', cb'), res)"
  shows "objects c' = objects c" and "initial_refs c' = initial_refs c"
    and "shared_trim_message_callback c' = shared_trim_message_callback c"
proof -
  from shared_trim_loop_frame[OF assms]
  have eq: "c' = c\<lparr>history_refs := history_refs c'\<rparr>" by simp
  show "objects c' = objects c" using arg_cong[OF eq, of objects] by simp
  show "initial_refs c' = initial_refs c" using arg_cong[OF eq, of initial_refs] by simp
  show "shared_trim_message_callback c' = shared_trim_message_callback c"
    using arg_cong[OF eq, of shared_trim_message_callback] by simp
qed

lemma messages_at_append:
  "list_all (\<lambda>a. a < length objs) refs \<Longrightarrow> messages_at (objs @ extra) refs = messages_at objs refs"
  by (induction refs) (auto simp: messages_at_def nth_append)

lemma messages_at_update:
  "a \<notin> set refs \<Longrightarrow> messages_at (objs[a := v]) refs = messages_at objs refs"
  by (induction refs) (auto simp: messages_at_def)

lemma shared_append_message_facts:
  "initial_refs (shared_append_message mc r nm c) = initial_refs c"
  "shared_trim_message_callback (shared_append_message mc r nm c) = shared_trim_message_callback c"
  "shared_response_token_size (shared_append_message mc r nm c) = shared_response_token_size c"
  "shared_max_token_size (shared_append_message mc r nm c) = shared_max_token_size c"
  "take (length (history_refs c)) (history_refs (shared_append_message mc r nm c)) = history_refs c"
  "list_all (\<lambda>a. a < length (objects c)) refs \<Longrightarrow>
     messages_at (objects (shared_append_message mc r nm c)) refs = messages_at (objects c) refs"
  by (auto simp: shared_append_message_def messages_at_append split: option.splits)

text \<open>
  The two models agree: when no message after the initial ones shares its dictionary
  with an initial message, the update over values, run on the view of a store, gives
  the view of what the update over the store gives, with the same trace and result.
\<close>

lemma messages_at_simps:
  "messages_at objs (xs @ ys) = messages_at objs xs @ messages_at objs ys"
  "messages_at objs (take k xs) = take k (messages_at objs xs)"
  "messages_at objs (drop k xs) = drop k (messages_at objs xs)"
  "length (messages_at objs xs) = length xs"
  by (simp_all add: messages_at_def take_map drop_map)

lemma trim_iteration_view:
  "trim_iteration T (view b c, a, cb) = view_iteration b (shared_trim_iteration T (c, a, cb))"
  by (simp add: trim_iteration_def shared_trim_iteration_def view_def pop_at_def Let_def
        messages_at_simps split: option.splits)

lemma trim_loop_view:
  "shared_trim_loop T s = ((c', a', cb'), res) \<Longrightarrow>
     trim_loop T (view b (fst s), fst (snd s), snd (snd s)) = ((view b c', a', cb'), res)"
proof (induction T s rule: shared_trim_loop.induct)
  case (1 T s)
  obtain c a cb where s: "s = (c, a, cb)" by (cases s) auto
  show ?case
  proof (cases "shared_trim_iteration T s")
    case (Shared_continue x)
    obtain c1 a1 cb1 where x: "x = (c1, a1, cb1)" by (cases x) auto
    from Shared_continue "1.prems" have loop: "shared_trim_loop T x = ((c', a', cb'), res)"
      by (subst (asm) shared_trim_loop.simps) simp
    from "1.IH"[OF Shared_continue loop]
    have "trim_loop T (view b c1, a1, cb1) = ((view b c', a', cb'), res)" by (simp add: x)
    with Shared_continue show ?thesis
      by (subst trim_loop.simps) (simp add: s x trim_iteration_view)
  next
    case (Shared_exit x)
    obtain c1 a1 cb1 where x: "x = (c1, a1, cb1)" by (cases x) auto
    from Shared_exit "1.prems" have "x = (c', a', cb')" "res = Inr ()"
      by (subst (asm) shared_trim_loop.simps; simp)+
    with Shared_exit show ?thesis
      by (subst trim_loop.simps) (simp add: s x trim_iteration_view)
  next
    case (Shared_raised e x)
    obtain c1 a1 cb1 where x: "x = (c1, a1, cb1)" by (cases x) auto
    from Shared_raised "1.prems" have "x = (c', a', cb')" "res = Inl e"
      by (subst (asm) shared_trim_loop.simps; simp)+
    with Shared_raised show ?thesis
      by (subst trim_loop.simps) (simp add: s x trim_iteration_view)
  qed
qed

lemma view_fields:
  "max_token_size (view b c) = shared_max_token_size c"
  "trim_message_callback (view b c) = shared_trim_message_callback c"
  "response_token_size (view b c) = shared_response_token_size c"
  "initial_messages (view b c) = messages_at (objects c) (initial_refs c)"
  "conversation_history (view b c) = messages_at (objects c) (history_refs c)"
  by (simp_all add: view_def)

lemma view_append_message:
  assumes "refs_valid c"
  shows "view b (shared_append_message mc r nm c) = append_message mc r nm (view b c)"
proof (cases mc)
  case None
  then show ?thesis by (simp add: shared_append_message_def append_message_def)
next
  case (Some given)
  from assms have "list_all (\<lambda>a. a < length (objects c)) (initial_refs c)"
    and "list_all (\<lambda>a. a < length (objects c)) (history_refs c)"
    by (simp_all add: refs_valid_def)
  then have "messages_at (objects c @ [new_message r given nm]) (initial_refs c) =
             messages_at (objects c) (initial_refs c)"
    and "messages_at (objects c @ [new_message r given nm]) (history_refs c) =
         messages_at (objects c) (history_refs c)"
    by (simp_all add: messages_at_append)
  moreover have "messages_at (objects c @ [new_message r given nm]) [length (objects c)] =
                 [new_message r given nm]"
    by (simp add: messages_at_def)
  ultimately show ?thesis
    using Some
    by (simp add: shared_append_message_def append_message_def view_def messages_at_simps(1))
qed

lemma view_truncated:
  assumes "length refs = n + 1" and "last refs \<notin> set (take n refs)"
    and "last refs \<notin> set inits" and "last refs < length objs"
  shows "messages_at (objs[last refs := v]) refs = (messages_at objs refs)[n := v]"
    and "messages_at (objs[last refs := v]) inits = messages_at objs inits"
    and "last (messages_at objs refs) = objs ! last refs"
proof -
  from assms(1) have ne: "refs \<noteq> []" by auto
  from assms(1) have refs: "refs = take n refs @ [last refs]"
    by (metis Suc_eq_plus1 append_butlast_last_id butlast_conv_take diff_Suc_1 ne)
  have len: "length (take n refs) = n" using assms(1) by simp
  have "messages_at (objs[last refs := v]) (take n refs @ [last refs]) =
        messages_at objs (take n refs) @ [v]"
    using assms(2,4) by (simp add: messages_at_simps(1) messages_at_update) (simp add: messages_at_def)
  moreover have "(messages_at objs (take n refs @ [last refs]))[n := v] =
        messages_at objs (take n refs) @ [v]"
    using len by (simp add: messages_at_simps(1) list_update_append messages_at_def del: length_take)
  ultimately show "messages_at (objs[last refs := v]) refs = (messages_at objs refs)[n := v]"
    using refs by metis
  show "messages_at (objs[last refs := v]) inits = messages_at objs inits"
    using assms(3) by (rule messages_at_update)
  show "last (messages_at objs refs) = objs ! last refs"
    using ne by (simp add: messages_at_def last_map)
qed

lemma last_ref_unshared:
  assumes "refs_valid c" and "primer_unshared c"
    and "length (history_refs (shared_append_message mc r nm c)) = length (initial_refs c) + 1"
  shows "last (history_refs (shared_append_message mc r nm c)) \<notin>
           set (take (length (initial_refs c)) (history_refs (shared_append_message mc r nm c)))"
    and "last (history_refs (shared_append_message mc r nm c)) \<notin> set (initial_refs c)"
    and "last (history_refs (shared_append_message mc r nm c)) <
           length (objects (shared_append_message mc r nm c))"
proof -
  define n where "n = length (initial_refs c)"
  from assms(1) have valid_init: "\<forall>a \<in> set (initial_refs c). a < length (objects c)"
    and valid_hist: "\<forall>a \<in> set (history_refs c). a < length (objects c)"
    by (simp_all add: refs_valid_def list_all_iff)
  have all: "last (history_refs (shared_append_message mc r nm c)) \<notin>
           set (take n (history_refs (shared_append_message mc r nm c))) \<and>
         last (history_refs (shared_append_message mc r nm c)) \<notin> set (initial_refs c) \<and>
         last (history_refs (shared_append_message mc r nm c)) <
           length (objects (shared_append_message mc r nm c))"
  proof (cases mc)
    case None
    then have same: "shared_append_message mc r nm c = c"
      by (simp add: shared_append_message_def)
    from assms(3) same have lt: "n < length (history_refs c)" by (simp add: n_def)
    then have "drop n (history_refs c) \<noteq> []" by simp
    then have "last (drop n (history_refs c)) \<in> set (drop n (history_refs c))"
      by (rule last_in_set)
    with lt have mem: "last (history_refs c) \<in> set (drop n (history_refs c))"
      by (simp add: last_drop)
    then have "last (history_refs c) \<in> set (history_refs c)"
      by (rule in_set_dropD)
    with mem assms(2) valid_hist show ?thesis
      by (auto simp: primer_unshared_def list_all_iff same n_def)
  next
    case (Some given)
    then have refs: "history_refs (shared_append_message mc r nm c) =
        history_refs c @ [length (objects c)]"
      and objs: "length (objects (shared_append_message mc r nm c)) = length (objects c) + 1"
      by (simp_all add: shared_append_message_def)
    from assms(3) refs have "length (history_refs c) = n" by (simp add: n_def)
    with refs valid_init valid_hist objs show ?thesis
      by auto
  qed
  from all show "last (history_refs (shared_append_message mc r nm c)) \<notin>
           set (take (length (initial_refs c)) (history_refs (shared_append_message mc r nm c)))"
    by (simp add: n_def)
  from all show "last (history_refs (shared_append_message mc r nm c)) \<notin> set (initial_refs c)"
    by simp
  from all show "last (history_refs (shared_append_message mc r nm c)) <
           length (objects (shared_append_message mc r nm c))"
    by simp
qed

lemma update_view:
  assumes "refs_valid c" and "primer_unshared c"
  shows "update_conversation_history T mc r nm (view b c, w) =
           (case shared_update_conversation_history T mc r nm (c, w) of
              ((c', w'), out) \<Rightarrow> ((view b c', w'), out))"
proof -
  define c1 where "c1 = shared_append_message mc r nm c"
  define n where "n = length (initial_refs c)"
  define a where "a = shared_max_token_size c1 -
      count_tokens T (messages_at (objects c1) (history_refs c1))"
  have app: "view b c1 = append_message mc r nm (view b c)"
    unfolding c1_def by (rule view_append_message[OF assms(1)])
  have init1: "initial_refs c1 = initial_refs c"
    and cb1: "shared_trim_message_callback c1 = shared_trim_message_callback c"
    and max1: "shared_max_token_size c1 = shared_max_token_size c"
    and res1: "shared_response_token_size c1 = shared_response_token_size c"
    by (simp_all add: c1_def shared_append_message_facts)
  have len_init: "length (initial_messages (view b c)) = n"
    by (simp add: view_fields messages_at_simps n_def)
  have len_hist: "length (conversation_history (view b c1)) = length (history_refs c1)"
    by (simp add: view_fields messages_at_simps)
  have a_view: "max_token_size (view b c) - count_tokens T (conversation_history (view b c1)) = a"
    by (simp add: view_fields a_def max1)
  have shared: "shared_update_conversation_history T mc r nm (c, w) =
      (if n + 1 < length (history_refs c1) then
         (case shared_trim_loop T (c1, a, False) of
            ((c', available_tokens', callback_invoked), Inl e) \<Rightarrow> ((c', w), Inl e)
          | ((c', available_tokens', callback_invoked), Inr u) \<Rightarrow>
              if shared_trim_message_callback c' \<noteq> None \<and> callback_invoked
              then ((c', fire_trim_callback w), Inr available_tokens')
              else ((c', w), Inr available_tokens'))
       else if length (history_refs c1) = n + 1 then
         (case shared_response_token_size c1 of
            None \<Rightarrow> ((c1, w), Inl TypeError)
          | Some reserve \<Rightarrow>
              if a < reserve then shared_truncate_last T c1 w a else ((c1, w), Inr a))
       else ((c1, w), Inr a))"
    unfolding c1_def n_def a_def
    by (simp add: shared_update_conversation_history_def Let_def shared_append_message_facts(1))
  consider (evict) "n + 1 < length (history_refs c1)"
    | (single) "length (history_refs c1) = n + 1"
    | (short) "length (history_refs c1) < n + 1"
    by linarith
  then show ?thesis
  proof cases
    case evict
    obtain s' res where "shared_trim_loop T (c1, a, False) = (s', res)"
      by (cases "shared_trim_loop T (c1, a, False)") auto
    moreover obtain c' a' cb' where "s' = (c', a', cb')" by (cases s') auto
    ultimately have loop: "shared_trim_loop T (c1, a, False) = ((c', a', cb'), res)" by simp
    from trim_loop_view[OF loop, of b]
    have loopv: "trim_loop T (view b c1,
        max_token_size (view b c) - count_tokens T (conversation_history (view b c1)), False) =
        ((view b c', a', cb'), res)"
      by (simp add: a_view)
    from evict have evictv: "length (initial_messages (view b c)) + 1 <
        length (conversation_history (view b c1))"
      by (simp add: len_init len_hist)
    note upd = update_evicting[OF app evictv loopv, of w]
    from shared_trim_loop_fields(3)[OF loop] cb1
    have cb': "shared_trim_message_callback c' = shared_trim_message_callback c" by simp
    from evict loop cb' show ?thesis
      unfolding upd shared
      by (cases res) (simp_all add: view_fields)
  next
    case single
    from single have singlev: "length (conversation_history (view b c1)) =
        length (initial_messages (view b c)) + 1"
      by (simp add: len_init len_hist)
    note upd = update_single[OF app singlev, of T w]
    note un = last_ref_unshared[OF assms single[unfolded c1_def n_def], folded c1_def n_def]
    from un(2) init1 have un2: "last (history_refs c1) \<notin> set (initial_refs c1)" by simp
    note tr = view_truncated[OF single un(1) un2 un(3)]
    from single have ne: "history_refs c1 \<noteq> []" by auto
    have a_eq: "shared_max_token_size c -
        count_tokens T (messages_at (objects c1) (history_refs c1)) = a"
      by (simp add: a_def max1)
    have n_eq: "length (messages_at (objects c) (initial_refs c)) = n"
      by (simp add: messages_at_simps n_def)
    show ?thesis
    proof (cases "shared_response_token_size c")
      case None
      with single show ?thesis
        unfolding upd shared
        by (simp add: view_fields res1)
    next
      case (Some reserve)
      show ?thesis
      proof (cases "a < reserve")
        case True
        have neg: "a - reserve < int k" for k :: nat
          using True by simp
        have vw: "view b (c1\<lparr>objects := (objects c1)[last (history_refs c1) := v]\<rparr>) =
              (view b c1)\<lparr>conversation_history :=
                 (conversation_history (view b c1))[n := v]\<rparr>" for v
          by (simp add: view_def tr(1,2))
        from True Some single ne neg show ?thesis
          unfolding upd shared
          by (simp add: view_fields res1 a_eq n_eq shared_truncate_last_def Let_def
                tr(3) cb1 vw)
      next
        case False
        with Some single show ?thesis
          unfolding upd shared
          by (simp add: view_fields res1 a_eq)
      qed
    qed
  next
    case short
    from short have shortv: "length (conversation_history (view b c1)) <
        length (initial_messages (view b c)) + 1"
      by (simp add: len_init len_hist)
    note upd = update_short[OF app shortv, of T w]
    from short show ?thesis
      unfolding upd shared
      by (simp add: a_view)
  qed
qed

section \<open>What a call of generate_response leaves unchanged\<close>

text \<open>
  Updates touch neither the attribute \<open>error_callback\<close> nor the pending answers, and
  request no completion; with the attribute unset, the \<open>except\<close> clause always raises.
\<close>

lemma continuations_simps:
  "continuations (fire_trim_callback w) = continuations w"
  "continuations (w\<lparr>trace := trace w @ [Printed p]\<rparr>) = continuations w"
  "continuations (w\<lparr>pending := ps, trace := trace w @ [Completion_requested Primary h]\<rparr>) =
     continuations w"
  "continuations (w\<lparr>pending := ps, trace := trace w @ [Completion_requested Continuation h]\<rparr>) =
     continuations w + 1"
  by (simp_all add: continuations_def fire_trim_callback_def)

lemma update_keeps:
  assumes "update_conversation_history T mc r nm (b, w) = ((b', w'), out)"
  shows "error_callback b' = error_callback b"
    and "continuations w' = continuations w"
    and "pending w' = pending w"
proof -
  define b1 where "b1 = append_message mc r nm b"
  define n where "n = length (initial_messages b)"
  have all: "error_callback b' = error_callback b \<and> continuations w' = continuations w \<and>
             pending w' = pending w"
  proof -
    consider (evict) "n + 1 < length (conversation_history b1)"
      | (single) "length (conversation_history b1) = n + 1"
      | (short) "length (conversation_history b1) < n + 1"
      by linarith
    then show ?thesis
    proof cases
      case evict
      obtain s' res where "trim_loop T (b1, max_token_size b - count_tokens T (conversation_history b1), False) = (s', res)"
        by (cases "trim_loop T (b1, max_token_size b - count_tokens T (conversation_history b1), False)") auto
      moreover obtain b2 a2 c2 where "s' = (b2, a2, c2)" by (cases s') auto
      ultimately have loop:
        "trim_loop T (b1, max_token_size b - count_tokens T (conversation_history b1), False) =
           ((b2, a2, c2), res)" by simp
      from update_evicting[OF b1_def evict[unfolded n_def] loop, of w] assms
        trim_loop_fields(6)[OF loop]
      show ?thesis
        by (auto simp: b1_def append_message_fields continuations_def fire_trim_callback_def)
    next
      case single
      from update_single[OF b1_def single[unfolded n_def], of T w] assms
      show ?thesis
        by (auto simp: b1_def append_message_fields continuations_def fire_trim_callback_def
                 split: option.splits if_splits)
    next
      case short
      from update_short[OF b1_def short[unfolded n_def], of T w] assms
      show ?thesis by (auto simp: b1_def append_message_fields)
    qed
  qed
  from all show "error_callback b' = error_callback b" by simp
  from all show "continuations w' = continuations w" by simp
  from all show "pending w' = pending w" by simp
qed

lemma finish_reply_keeps:
  assumes "finish_reply T reply (b, w) = Some ((b', w'), out)"
  shows "error_callback b' = error_callback b \<and> continuations w' \<le> continuations w + 1"
proof (cases reply)
  case None
  with assms show ?thesis by (simp add: finish_reply_def)
next
  case (Some rt)
  show ?thesis
  proof (cases "rt \<noteq> [] \<and> last rt \<notin> {CHR ''.'', CHR ''!'', CHR ''?''}")
    case False
    with assms Some show ?thesis by (auto simp: finish_reply_def split: if_splits)
  next
    case True
    obtain b1 w1 r1 where upd:
      "update_conversation_history T (Some rt) ''assistant'' None (b, w) = ((b1, w1), r1)"
      by (cases "update_conversation_history T (Some rt) ''assistant'' None (b, w)") auto
    note keeps = update_keeps[OF upd]
    from assms Some True upd keeps show ?thesis
      by (auto simp: finish_reply_def create_response_def continuations_simps
               split: sum.splits if_splits list.splits option.splits)
  qed
qed

lemma except_block_unset:
  "error_callback (fst s) = Unset \<Longrightarrow> except_block gen T func_name e s = Some (s, Inl AttributeError)"
  by (simp add: except_block_def)

lemma generate_response_keeps:
  "error_callback b = Unset \<Longrightarrow> generate_response d E (b, w) = Some ((b', w'), out) \<Longrightarrow>
     error_callback b' = Unset \<and> continuations w' \<le> continuations w + 1"
proof (induction d arbitrary: b w b' w' out)
  case 0
  then show ?case by simp
next
  case (Suc d)
  let ?gen = "generate_response d E"
  from Suc.prems(2) obtain resp rest where pend: "pending w = resp # rest"
    by (auto simp: generate_response_body_def create_response_def split: list.splits)
  define w1 where "w1 = w\<lparr>pending := rest,
      trace := trace w @ [Completion_requested Primary (conversation_history b)]\<rparr>"
  have c1: "continuations w1 = continuations w"
    by (simp add: w1_def continuations_simps)
  have cr: "create_response Primary (b, w) = Some (resp, (b, w1))"
    by (simp add: create_response_def pend w1_def)
  show ?case
  proof (cases "function_call resp")
    case None
    with Suc.prems(2) cr have "finish_reply (tok E) (reply_content resp) (b, w1) = Some ((b', w'), out)"
      by (simp add: generate_response_body_def)
    from finish_reply_keeps[OF this] c1 Suc.prems(1) show ?thesis by simp
  next
    case (Some func)
    show ?thesis
    proof (cases "json_loads E (arguments func)")
      case None
      with Suc.prems cr Some c1 show ?thesis
        by (simp add: generate_response_body_def)
    next
      case args: (Some func_args)
      show ?thesis
      proof (cases "functions_callable b")
        case None
        with Suc.prems cr Some args c1 show ?thesis
          by (simp add: generate_response_body_def)
      next
        case reg: (Some registry)
        show ?thesis
        proof (cases "registry (call_name func)")
          case None
          with Suc.prems(2) cr Some args reg
          have "finish_reply (tok E) (reply_content resp)
                  (b, w1\<lparr>trace := trace w1 @
                     [Printed (''Function '' @ call_name func @ '' is not recognized.'')]\<rparr>) =
                Some ((b', w'), out)"
            by (simp add: generate_response_body_def print_unrecognized_def)
          from finish_reply_keeps[OF this] c1 Suc.prems(1) show ?thesis
            by (simp add: continuations_simps)
        next
          case callable: (Some callable)
          from Suc.prems(2) cr Some args reg callable
          have body: "(case try_block ?gen (tok E) callable (call_name func) func_args (b, w1) of
                         None \<Rightarrow> None
                       | Some (s2, Inr reply) \<Rightarrow> Some (s2, Inr reply)
                       | Some (s2, Inl e) \<Rightarrow> except_block ?gen (tok E) (call_name func) e s2) =
                      Some ((b', w'), out)"
            by (simp add: generate_response_body_def)
          then obtain b2 w2 r2 where tried:
            "try_block ?gen (tok E) callable (call_name func) func_args (b, w1) = Some ((b2, w2), r2)"
            by (cases "try_block ?gen (tok E) callable (call_name func) func_args (b, w1)") auto
          have inner: "error_callback b2 = Unset \<and> continuations w2 \<le> continuations w1 + 1"
          proof (cases "callable func_args")
            case (Inl detail)
            with tried Suc.prems(1) show ?thesis by (simp add: try_block_def)
          next
            case (Inr func_result)
            obtain b3 w3 r3 where upd:
              "update_conversation_history (tok E) (Some func_result) ''function''
                 (Some (call_name func)) (b, w1) = ((b3, w3), r3)"
              by (cases "update_conversation_history (tok E) (Some func_result) ''function''
                 (Some (call_name func)) (b, w1)") auto
            note keeps = update_keeps[OF upd]
            show ?thesis
            proof (cases r3)
              case (Inl e)
              with tried Inr upd keeps Suc.prems(1) show ?thesis by (simp add: try_block_def)
            next
              case avail: (Inr a)
              with tried Inr upd have "?gen (b3, w3) = Some ((b2, w2), r2)"
                by (simp add: try_block_def)
              from Suc.IH[OF _ this] keeps Suc.prems(1) show ?thesis by simp
            qed
          qed
          show ?thesis
          proof (cases r2)
            case (Inl e)
            with body tried inner except_block_unset[of "(b2, w2)"] c1 show ?thesis by simp
          next
            case (Inr reply)
            with body tried inner c1 show ?thesis by simp
          qed
        qed
      qed
    qed
  qed
qed

section \<open>Eviction order\<close>

text \<open>
  C1. The claim: the eviction loop removes the oldest active message, the one at index
  \<open>len(primer)\<close>, so of three messages A, B, C appended in this order A goes first.
  The code pops index \<open>len(self.initial_messages) + 1\<close>. With a primer of one message
  of 3 tokens, a budget of 15 tokens and a reserve of 3, appending A, B, C (4 tokens
  each) evicts B and keeps A; appending D next evicts C, and A is still there.
\<close>

theorem eviction_skips_oldest:
  "(let b = init [system_message ''sys''] False None None None None (Some 15)
              (Some ''on_trim'') None (Some 3);
        (s1, r1) = update_conversation_history char_tokenizer (Some ''aaaa'') ''user'' None
                     (b, quiet_world);
        (s2, r2) = update_conversation_history char_tokenizer (Some ''bbbb'') ''user'' None s1;
        (s3, r3) = update_conversation_history char_tokenizer (Some ''cccc'') ''user'' None s2;
        (s4, r4) = update_conversation_history char_tokenizer (Some ''dddd'') ''user'' None s3
    in (map content (conversation_history (fst s2)),
        map content (conversation_history (fst s3)),
        map content (conversation_history (fst s4)), r3, r4))
   = ([''sys'', ''aaaa'', ''bbbb''], [''sys'', ''aaaa'', ''cccc''],
      [''sys'', ''aaaa'', ''dddd''], Inr 4, Inr 4)"
  by (simp add: run_defs)

section \<open>Failures inside generate_response\<close>

text \<open>
  C3. The claim: when a registered function raises, the failure is recovered inside
  \<open>generate_response\<close>: the error callback given to the constructor is called once,
  the last message is rolled back, and nothing is raised to the caller of \<open>respond\<close>.
  The constructor drops its \<open>error_callback\<close> argument, so the \<open>except\<close> clause
  raises \<open>AttributeError\<close> when it reads \<open>self.error_callback\<close>: the caller of
  \<open>respond\<close> gets the exception, no callback is called and nothing is rolled back.
\<close>

theorem handler_failure_reaches_caller:
  "(case respond 3 plain_env ''hi''
           (init [] False None None (Some [''lookup''])
              (Some [''lookup'' \<mapsto> failing_lookup]) (Some 100) None (Some ''on_error'')
              (Some 10),
            \<lparr> pending = [call_of ''lookup''], trace = [] \<rparr>) of
      None \<Rightarrow> None
    | Some ((b, w), out) \<Rightarrow> Some (conversation_history b, trace w, out))
   = Some ([user_message ''hi''],
           [Completion_requested Primary [user_message ''hi'']],
           Inl AttributeError)"
  by (simp add: run_defs respond_defs numeral_eq_Suc)

text \<open>
  C5. The claim: a reply that asks for a function missing from the registry does not
  make \<open>generate_response\<close> fail, also when the reply has no content: the text that
  came with the call, or the empty text, is returned. The code prints its message and
  then evaluates \<open>reply[-1]\<close> on the content; for a null content this raises
  \<open>TypeError\<close>.
\<close>

theorem unregistered_call_without_content_raises:
  "(case generate_response 3 plain_env
           (init [] False None (Some [user_message ''hi'']) (Some [''lookup''])
              (Some [''lookup'' \<mapsto> failing_lookup]) (Some 100) None None (Some 10),
            \<lparr> pending = [call_of ''weather''], trace = [] \<rparr>) of
      None \<Rightarrow> None
    | Some ((b, w), out) \<Rightarrow> Some (conversation_history b, trace w, out))
   = Some ([user_message ''hi''],
           [Completion_requested Primary [user_message ''hi''],
            Printed ''Function weather is not recognized.''],
           Inl TypeError)"
  by (simp add: run_defs respond_defs numeral_eq_Suc)

section \<open>The primer segment\<close>

text \<open>
  C7, as claimed: after any update the messages of the primer segment are byte-identical
  and first. The constructor keeps the caller's dictionaries; when one dictionary \<open>p\<close>
  (10 tokens) is passed both as the personality primer and as the starting message,
  with a budget of 15 and a reserve of 10, an update finds one message after the
  initial ones, truncates it in place to nothing, and \<open>p\<close> is also the initial
  message: the primer segment has changed.
\<close>

theorem shared_primer_message_truncated:
  "(case shared_update_conversation_history char_tokenizer None ''user'' None
           (shared_init [system_message ''ssssssssss''] [0] None (Some [0]) False (Some 15)
              None (Some 10), quiet_world) of
      ((c', w'), out) \<Rightarrow>
        (messages_at (objects c') (initial_refs c'),
         messages_at (objects c') (history_refs c'), out))
   = ([system_message ''''], [system_message '''', system_message ''''], Inr 10) \<and>
   messages_at
     (objects (shared_init [system_message ''ssssssssss''] [0] None (Some [0]) False (Some 15)
        None (Some 10)))
     (initial_refs (shared_init [system_message ''ssssssssss''] [0] None (Some [0]) False
        (Some 15) None (Some 10)))
   = [system_message ''ssssssssss'']"
  by (simp add: shared_defs run_defs)

text \<open>
  C7, as amended. Whatever an update does (appending, evicting, truncating, raising),
  it touches no index inside the primer segment: \<open>initial_messages\<close> and the first
  \<open>len(initial_messages)\<close> slots of the history hold the same references afterwards.
  The messages there are unchanged as well provided no message after the initial ones
  is the same dictionary as one of them; a message that the update itself appends
  never is. The transcript is taken to hold its primer segment, as the data model says.
\<close>

theorem primer_segment_preserved:
  assumes "refs_valid c" and "length (initial_refs c) \<le> length (history_refs c)"
  shows "(case shared_update_conversation_history T mc r nm (c, w) of
            ((c', w'), out) \<Rightarrow>
              initial_refs c' = initial_refs c \<and>
              take (length (initial_refs c)) (history_refs c') =
                take (length (initial_refs c)) (history_refs c) \<and>
              (primer_unshared c \<longrightarrow>
                 messages_at (objects c') (initial_refs c') =
                   messages_at (objects c) (initial_refs c) \<and>
                 messages_at (objects c') (take (length (initial_refs c)) (history_refs c')) =
                   messages_at (objects c) (take (length (initial_refs c)) (history_refs c))))"
proof -
  define c1 where "c1 = shared_append_message mc r nm c"
  define n where "n = length (initial_refs c)"
  note app = shared_append_message_facts[where mc = mc and r = r and nm = nm and c = c, folded c1_def]
  from assms(1) have valid_init: "list_all (\<lambda>a. a < length (objects c)) (initial_refs c)"
    and valid_hist: "list_all (\<lambda>a. a < length (objects c)) (history_refs c)"
    by (simp_all add: refs_valid_def)
  from valid_hist have valid_take: "list_all (\<lambda>a. a < length (objects c)) (take n (history_refs c))"
    by (auto simp: list_all_iff dest: in_set_takeD)
  have pre: "take n (history_refs c1) = take n (history_refs c)"
  proof -
    have "take n (take (length (history_refs c)) (history_refs c1)) = take n (history_refs c1)"
      using assms(2) by (simp add: n_def min_def)
    then show ?thesis by (simp add: app(5))
  qed
  have obj1: "messages_at (objects c1) (initial_refs c) = messages_at (objects c) (initial_refs c)"
    "messages_at (objects c1) (take n (history_refs c)) =
       messages_at (objects c) (take n (history_refs c))"
    using app(6)[OF valid_init] app(6)[OF valid_take] by simp_all
  consider (evict) "n + 1 < length (history_refs c1)"
    | (single) "length (history_refs c1) = n + 1"
    | (short) "length (history_refs c1) < n + 1"
    by linarith
  then show ?thesis
  proof cases
    case evict
    obtain s' res where "shared_trim_loop T (c1, shared_max_token_size c1 -
        count_tokens T (messages_at (objects c1) (history_refs c1)), False) = (s', res)"
      by (cases "shared_trim_loop T (c1, shared_max_token_size c1 -
        count_tokens T (messages_at (objects c1) (history_refs c1)), False)") auto
    moreover obtain c' a' cb' where "s' = (c', a', cb')" by (cases s') auto
    ultimately have loop: "shared_trim_loop T (c1, shared_max_token_size c1 -
        count_tokens T (messages_at (objects c1) (history_refs c1)), False) = ((c', a', cb'), res)"
      by simp
    from shared_trim_loop_frame[OF loop]
    have "take (n + 1) (history_refs c') = take (n + 1) (history_refs c1)"
      by (simp add: app(1) n_def)
    then have "take n (take (n + 1) (history_refs c')) = take n (take (n + 1) (history_refs c1))"
      by simp
    then have tk: "take n (history_refs c') = take n (history_refs c)"
      by (simp add: min_def pre)
    from evict loop shared_trim_loop_fields(1,2)[OF loop] tk obj1 app(1)
    show ?thesis
      by (cases res)
         (simp_all add: shared_update_conversation_history_def Let_def c1_def[symmetric]
            n_def[symmetric])
  next
    case single
    then have ne: "history_refs c1 \<noteq> []" by auto
    have unshared: "last (history_refs c1) \<notin> set (initial_refs c) \<and>
                    last (history_refs c1) \<notin> set (take n (history_refs c))"
      if "primer_unshared c"
    proof (cases mc)
      case None
      then have same: "history_refs c1 = history_refs c"
        by (simp add: c1_def shared_append_message_def)
      from single same have lt: "n < length (history_refs c)" by simp
      then have "drop n (history_refs c) \<noteq> []" by simp
      then have "last (drop n (history_refs c)) \<in> set (drop n (history_refs c))"
        by (rule last_in_set)
      with lt have "last (history_refs c) \<in> set (drop n (history_refs c))"
        by (simp add: last_drop)
      with that show ?thesis
        by (auto simp: primer_unshared_def list_all_iff same n_def)
    next
      case (Some given)
      then have "last (history_refs c1) = length (objects c)"
        by (simp add: c1_def shared_append_message_def)
      with valid_init valid_take show ?thesis
        by (auto simp: list_all_iff)
    qed
    from single app(1) have branch: "shared_update_conversation_history T mc r nm (c, w) =
        (case shared_response_token_size c1 of
           None \<Rightarrow> ((c1, w), Inl TypeError)
         | Some reserve \<Rightarrow>
             if shared_max_token_size c1 -
                count_tokens T (messages_at (objects c1) (history_refs c1)) < reserve
             then shared_truncate_last T c1 w
                    (shared_max_token_size c1 -
                     count_tokens T (messages_at (objects c1) (history_refs c1)))
             else ((c1, w),
                   Inr (shared_max_token_size c1 -
                        count_tokens T (messages_at (objects c1) (history_refs c1)))))"
      unfolding c1_def n_def
      by (simp add: shared_update_conversation_history_def Let_def
            shared_append_message_facts(1))
    from unshared obj1 pre app(1) ne show ?thesis
      unfolding branch
      by (auto simp: shared_truncate_last_def Let_def messages_at_update n_def[symmetric]
               split: option.splits)
  next
    case short
    from short obj1 pre app(1) show ?thesis
      by (simp add: shared_update_conversation_history_def Let_def c1_def[symmetric]
            n_def[symmetric])
  qed
qed

text \<open>
  A run of the theorem: the single message after the initial one is a dictionary of its
  own, the update truncates it and the initial message keeps its content.
\<close>

theorem primer_segment_preserved_witness:
  "refs_valid
     (shared_init [system_message ''ssssssssss'', user_message ''uuuuuuuuuu''] [0] None
        (Some [1]) False (Some 15) (Some ''on_trim'') (Some 3)) \<and>
   primer_unshared
     (shared_init [system_message ''ssssssssss'', user_message ''uuuuuuuuuu''] [0] None
        (Some [1]) False (Some 15) (Some ''on_trim'') (Some 3)) \<and>
   (case shared_update_conversation_history char_tokenizer None ''user'' None
           (shared_init [system_message ''ssssssssss'', user_message ''uuuuuuuuuu''] [0] None
              (Some [1]) False (Some 15) (Some ''on_trim'') (Some 3), quiet_world) of
      ((c', w'), out) \<Rightarrow>
        initial_refs c' = [0] \<and> history_refs c' = [0, 1] \<and>
        messages_at (objects c') (initial_refs c') = [system_message ''ssssssssss''] \<and>
        messages_at (objects c') (history_refs c') =
          [system_message ''ssssssssss'', user_message ''uu''] \<and>
        out = Inr 3)"
  using primer_segment_preserved [where T = char_tokenizer and mc = None and r = "''user''"
      and nm = None and w = quiet_world
      and c = "shared_init [system_message ''ssssssssss'', user_message ''uuuuuuuuuu''] [0] None
              (Some [1]) False (Some 15) (Some ''on_trim'') (Some 3)"]
  by (simp add: shared_defs run_defs)

section \<open>The trim callback\<close>

text \<open>
  C9. One call of update calls the trim callback at most once, whatever the number of
  evictions: the trace grows by nothing or by one call. Without a callback nothing is
  called; with a callback, a call that evicted at least one message (the history is
  shorter than it was after the append) calls it exactly once, after the loop.
\<close>

theorem trim_callback_fires_at_most_once:
  "(case update_conversation_history T mc r nm (b, w) of
      ((b', w'), out) \<Rightarrow>
        (trace w' = trace w \<or> trace w' = trace w @ [Trim_callback_called]) \<and>
        (trim_message_callback b = None \<longrightarrow> trace w' = trace w) \<and>
        (trim_message_callback b \<noteq> None \<and>
         length (conversation_history b') <
           length (conversation_history (append_message mc r nm b)) \<longrightarrow>
         trace w' = trace w @ [Trim_callback_called]))"
proof -
  define b1 where "b1 = append_message mc r nm b"
  define n where "n = length (initial_messages b)"
  consider (evict) "n + 1 < length (conversation_history b1)"
    | (single) "length (conversation_history b1) = n + 1"
    | (short) "length (conversation_history b1) < n + 1"
    by linarith
  then show ?thesis
  proof cases
    case evict
    obtain s' res where "trim_loop T (b1, max_token_size b - count_tokens T (conversation_history b1), False) = (s', res)"
      by (cases "trim_loop T (b1, max_token_size b - count_tokens T (conversation_history b1), False)") auto
    moreover obtain b' a' c' where "s' = (b', a', c')" by (cases s') auto
    ultimately have loop:
      "trim_loop T (b1, max_token_size b - count_tokens T (conversation_history b1), False) =
         ((b', a', c'), res)" by simp
    from trim_loop_locals[OF loop]
    have c': "c' = (trim_message_callback b \<noteq> None \<and>
                length (conversation_history b') < length (conversation_history b1))"
      by (simp add: b1_def append_message_fields)
    have "res = Inr ()" if "length (conversation_history b') < length (conversation_history b1)"
    proof (cases res)
      case (Inl e)
      from trim_loop_raises[OF loop[unfolded Inl]] that show ?thesis by simp
    next
      case (Inr u)
      then show ?thesis by simp
    qed
    with c' update_evicting[OF b1_def evict[unfolded n_def] loop, of w]
    show ?thesis
      by (auto simp: b1_def fire_trim_callback_def)
  next
    case single
    from update_single[OF b1_def single[unfolded n_def], of T w]
    show ?thesis
      by (auto simp: b1_def fire_trim_callback_def split: option.splits)
  next
    case short
    from update_short[OF b1_def short[unfolded n_def], of T w]
    show ?thesis by (simp add: b1_def)
  qed
qed

text \<open>A run of the theorem: one update evicts two messages and the callback is called once.\<close>

theorem trim_callback_fires_at_most_once_witness:
  "trim_message_callback
      (init [] False None (Some [user_message ''aaaa'', user_message ''bbbb'']) None None
         (Some 9) (Some ''on_trim'') None (Some 5)) \<noteq> None \<and>
   (case update_conversation_history char_tokenizer (Some ''cccc'') ''user'' None
           (init [] False None (Some [user_message ''aaaa'', user_message ''bbbb'']) None None
              (Some 9) (Some ''on_trim'') None (Some 5), quiet_world) of
      ((b', w'), out) \<Rightarrow>
        map content (conversation_history b') = [''aaaa''] \<and>
        trace w' = [Trim_callback_called])"
  using trim_callback_fires_at_most_once [where T = char_tokenizer and mc = "Some ''cccc''"
      and r = "''user''" and nm = None and w = quiet_world
      and b = "init [] False None (Some [user_message ''aaaa'', user_message ''bbbb'']) None None
         (Some 9) (Some ''on_trim'') None (Some 5)"]
  by (simp add: run_defs)

section \<open>Termination of the eviction loop\<close>

text \<open>
  C10. The eviction loop returns on every state and for every tokenizer: the loop
  defined with no termination argument yields a result, the one the update uses. An
  iteration that continues has removed exactly one message and leaves at least
  \<open>len(initial_messages) + 1\<close> of them.
\<close>

theorem eviction_loop_terminates:
  "trim_while T s = Some (trim_loop T s) \<and>
   (case trim_iteration T s of
      Continue s' \<Rightarrow>
        length (conversation_history (fst s')) + 1 = length (conversation_history (fst s)) \<and>
        length (initial_messages (fst s)) + 1 \<le> length (conversation_history (fst s'))
    | Exit s' \<Rightarrow> True
    | Raised e s' \<Rightarrow> True)"
proof
  show "trim_while T s = Some (trim_loop T s)" by (rule trim_while_eq)
next
  obtain b a c where s: "s = (b, a, c)" by (cases s) auto
  show "(case trim_iteration T s of
      Continue s' \<Rightarrow>
        length (conversation_history (fst s')) + 1 = length (conversation_history (fst s)) \<and>
        length (initial_messages (fst s)) + 1 \<le> length (conversation_history (fst s'))
    | Exit s' \<Rightarrow> True
    | Raised e s' \<Rightarrow> True)"
  proof (cases "trim_iteration T s")
    case (Continue x)
    obtain b1 a1 c1 where x: "x = (b1, a1, c1)" by (cases x) auto
    from trim_iteration_Continue(2,3)[OF Continue[unfolded s x]] Continue
    show ?thesis by (auto simp: s x)
  qed simp_all
qed

section \<open>Updates without content\<close>




section \<open>The budget after trimming\<close>

text \<open>
  C2, as claimed: after an update that trimmed, the tokens used plus the reserve are
  within \<open>max_token_size\<close>, or one message is left after the initial ones and it was
  truncated to fit. The initial messages are never trimmed: when they alone (8 tokens)
  exceed what the reserve leaves (budget 10, reserve 5), the new message is truncated
  to nothing, the history is still over budget, and 5 is returned as available.
\<close>

theorem truncated_history_over_budget:
  "(case update_conversation_history char_tokenizer (Some ''uuu'') ''user'' None
           (init [system_message ''ssssssss''] False None None None None
              (Some 10) (Some ''on_trim'') None (Some 5), quiet_world) of
      ((b', w'), out) \<Rightarrow>
        (conversation_history b', trace w', out,
         count_tokens char_tokenizer (conversation_history b') + 5 \<le> max_token_size b'))
   = ([system_message ''ssssssss'', user_message ''''], [Trim_callback_called], Inr 5, False)"
  by (simp add: run_defs)

text \<open>
  C2, as amended. With a reserve set: whenever an update leaves more than one message
  after the initial ones, the tokens used plus the reserve are within
  \<open>max_token_size\<close>; and when exactly one message follows the initial ones on entry
  to trimming, the initial messages leave room for the reserve, the tokenizer yields
  no more fragments than it counts tokens for that message, and the joined prefix
  counts no more tokens than its fragments, then one message is left, cut to fit: the
  tokens used plus the reserve are within \<open>max_token_size\<close>. Nothing is stated about
  an eviction that ends with one message after the initial ones.
\<close>

theorem trimmed_history_fits:
  assumes "response_token_size b = Some reserve"
  shows "(case update_conversation_history T mc r nm (b, w) of
            ((b', w'), out) \<Rightarrow>
              (length (initial_messages b) + 1 < length (conversation_history b') \<longrightarrow>
                 count_tokens T (conversation_history b') + reserve \<le> max_token_size b) \<and>
              (length (conversation_history (append_message mc r nm b)) =
                 length (initial_messages b) + 1 \<and>
               count_tokens T (take (length (initial_messages b))
                                 (conversation_history (append_message mc r nm b))) + reserve
                 \<le> max_token_size b \<and>
               int (length (tk_tokenize T
                      (content (last (conversation_history (append_message mc r nm b))))))
                 \<le> tk_count T
                      (content (last (conversation_history (append_message mc r nm b)))) \<and>
               tk_count T (concat (slice_to
                      (max_token_size b -
                       count_tokens T (conversation_history (append_message mc r nm b)) - reserve)
                      (tk_tokenize T
                        (content (last (conversation_history (append_message mc r nm b)))))))
                 \<le> int (length (slice_to
                      (max_token_size b -
                       count_tokens T (conversation_history (append_message mc r nm b)) - reserve)
                      (tk_tokenize T
                        (content (last (conversation_history (append_message mc r nm b)))))))
               \<longrightarrow> length (conversation_history b') = length (initial_messages b) + 1 \<and>
                   count_tokens T (conversation_history b') + reserve \<le> max_token_size b))"
proof -
  define b1 where "b1 = append_message mc r nm b"
  define n where "n = length (initial_messages b)"
  consider (evict) "n + 1 < length (conversation_history b1)"
    | (single) "length (conversation_history b1) = n + 1"
    | (short) "length (conversation_history b1) < n + 1"
    by linarith
  then show ?thesis
  proof cases
    case evict
    obtain s' res where "trim_loop T (b1, max_token_size b - count_tokens T (conversation_history b1), False) = (s', res)"
      by (cases "trim_loop T (b1, max_token_size b - count_tokens T (conversation_history b1), False)") auto
    moreover obtain b' a' c' where "s' = (b', a', c')" by (cases s') auto
    ultimately have loop:
      "trim_loop T (b1, max_token_size b - count_tokens T (conversation_history b1), False) =
         ((b', a', c'), res)" by simp
    have fields: "initial_messages b1 = initial_messages b" "max_token_size b1 = max_token_size b"
      "response_token_size b1 = response_token_size b"
      by (simp_all add: b1_def append_message_fields)
    have res: "res = Inr ()"
    proof (cases res)
      case (Inl e)
      from trim_loop_raises[OF loop[unfolded Inl]] assms(1) fields show ?thesis by simp
    qed simp
    from trim_loop_returns[OF loop[unfolded res]] assms(1) fields
    have exit: "reserve \<le> a' \<or> length (conversation_history b') \<le> n + 1"
      by (simp add: n_def)
    from trim_loop_locals[OF loop] fields
    have a': "a' = max_token_size b - count_tokens T (conversation_history b')"
      by (cases "length (conversation_history b') < length (conversation_history b1)")
         (use trim_loop_frame[OF loop] in auto)
    from exit a' update_evicting[OF b1_def evict[unfolded n_def] loop, of w] evict res
    show ?thesis
      by (auto simp: n_def b1_def[symmetric])
  next
    case single
    show ?thesis
    proof (cases "max_token_size b - count_tokens T (conversation_history b1) < reserve")
      case True
      let ?k = "max_token_size b - count_tokens T (conversation_history b1) - reserve"
      from True have k: "?k < 0" by simp
      note fit = truncation_fits[OF single refl k]
      from update_single[OF b1_def single[unfolded n_def], of T w] assms(1) True single fit
      show ?thesis
        by (auto simp: n_def b1_def[symmetric])
    next
      case False
      from update_single[OF b1_def single[unfolded n_def], of T w] assms(1) False single
      show ?thesis
        by (auto simp: n_def b1_def[symmetric])
    qed
  next
    case short
    from update_short[OF b1_def short[unfolded n_def], of T w] short
    show ?thesis
      by (auto simp: n_def b1_def[symmetric])
  qed
qed

text \<open>
  Two runs of the theorem: a message of 8 tokens is cut to the 3 that fit, and an
  eviction leaves three messages within budget.
\<close>

theorem trimmed_history_fits_witness:
  "response_token_size
      (init [system_message ''ss''] False None None None None (Some 10)
         (Some ''on_trim'') None (Some 5)) = Some 5 \<and>
   (case update_conversation_history char_tokenizer (Some ''uuuuuuuu'') ''user'' None
           (init [system_message ''ss''] False None None None None (Some 10)
              (Some ''on_trim'') None (Some 5), quiet_world) of
      ((b', w'), out) \<Rightarrow>
        conversation_history b' = [system_message ''ss'', user_message ''uuu''] \<and>
        out = Inr 5 \<and>
        count_tokens char_tokenizer (conversation_history b') + 5 \<le> 10) \<and>
   (case update_conversation_history char_tokenizer (Some ''cc'') ''user'' None
           (init [system_message ''ss''] False None
              (Some [user_message ''aaa'', user_message ''bbb'', user_message ''ccc''])
              None None (Some 15) (Some ''on_trim'') None (Some 5), quiet_world) of
      ((b', w'), out) \<Rightarrow>
        conversation_history b' =
          [system_message ''ss'', user_message ''aaa'', user_message ''ccc'',
           user_message ''cc''] \<and>
        out = Inr 5 \<and>
        count_tokens char_tokenizer (conversation_history b') + 5 \<le> 15)"
  using trimmed_history_fits [where T = char_tokenizer and mc = "Some ''uuuuuuuu''"
      and r = "''user''" and nm = None and w = quiet_world and reserve = 5
      and b = "init [system_message ''ss''] False None None None None (Some 10)
              (Some ''on_trim'') None (Some 5)"]
    trimmed_history_fits [where T = char_tokenizer and mc = "Some ''cc''"
      and r = "''user''" and nm = None and w = quiet_world and reserve = 5
      and b = "init [system_message ''ss''] False None
              (Some [user_message ''aaa'', user_message ''bbb'', user_message ''ccc''])
              None None (Some 15) (Some ''on_trim'') None (Some 5)"]
  by (simp add: run_defs)

section \<open>The truncation example\<close>

text \<open>
  C6. With \<open>max_token_size = 50\<close>, a reserve of 20, initial messages of 10 tokens and,
  once the new content (if any) is appended, one message of 45 tokens after them (45
  fragments, of which the first 20 joined count at most 20 tokens), the update keeps
  the first 20 fragments: \<open>text_tokens[:-25]\<close>. The history then counts at most 30
  tokens and the update returns 20.
\<close>

theorem truncation_example:
  assumes "max_token_size b = 50" and "response_token_size b = Some 20"
    and "conversation_history (append_message mc r nm b) = initial_messages b @ [m]"
    and "count_tokens T (initial_messages b) = 10"
    and "tk_count T (content m) = 45" and "length (tk_tokenize T (content m)) = 45"
    and "tk_count T (concat (take 20 (tk_tokenize T (content m)))) \<le> 20"
  shows "(case update_conversation_history T mc r nm (b, w) of
            ((b', w'), out) \<Rightarrow>
              out = Inr 20 \<and>
              count_tokens T (conversation_history b') \<le> 30 \<and>
              conversation_history b' =
                initial_messages b @
                [m\<lparr>content := concat (take 20 (tk_tokenize T (content m)))\<rparr>])"
proof -
  define b1 where "b1 = append_message mc r nm b"
  have h1: "conversation_history b1 = initial_messages b @ [m]"
    using assms(3) by (simp add: b1_def)
  then have single: "length (conversation_history b1) = length (initial_messages b) + 1"
    by simp
  have total: "count_tokens T (conversation_history b1) = 55"
    using assms(4,5) by (simp add: h1 count_tokens_def)
  have slice: "slice_to (- 25) (tk_tokenize T (content m)) = take 20 (tk_tokenize T (content m))"
    using assms(6) by (simp add: slice_to_def)
  from update_single[OF b1_def single, of T w] assms(1,2,4,7) total slice
  show ?thesis
    by (simp add: h1 count_tokens_def)
qed

text \<open>A run of the theorem with the tokenizer of one token per character.\<close>

theorem truncation_example_witness:
  "(case update_conversation_history char_tokenizer
           (Some ''xxxxxxxxxxxxxxxxxxxxxxxxxxxxxxxxxxxxxxxxxxxxx'') ''user'' None
           (init [system_message ''0123456789''] False None None None None (Some 50)
              (Some ''on_trim'') None (Some 20), quiet_world) of
      ((b', w'), out) \<Rightarrow>
        out = Inr 20 \<and>
        count_tokens char_tokenizer (conversation_history b') \<le> 30 \<and>
        conversation_history b' =
          [system_message ''0123456789'', user_message ''xxxxxxxxxxxxxxxxxxxx''])"
  using truncation_example [where T = char_tokenizer
      and mc = "Some ''xxxxxxxxxxxxxxxxxxxxxxxxxxxxxxxxxxxxxxxxxxxxx''" and r = "''user''"
      and nm = None and w = quiet_world
      and m = "user_message ''xxxxxxxxxxxxxxxxxxxxxxxxxxxxxxxxxxxxxxxxxxxxx''"
      and b = "init [system_message ''0123456789''] False None None None None (Some 50)
              (Some ''on_trim'') None (Some 20)"]
  by (simp add: run_defs)

section \<open>The continuation request\<close>

text \<open>
  C8. The claim: when the reply does not end in \<open>.\<close>, \<open>!\<close> or \<open>?\<close>, it is appended
  through the update, a continuation is requested exactly when the update returns a
  positive number of available tokens, at most one continuation is requested per
  call, and the result is the reply followed by the continuation's reply. The code
  reads the continuation with \<open>.get("content")\<close> and concatenates it unchecked: when the
  continuation carries no content (the service asks for a function instead), \<open>reply +=
  continuation_reply\<close> raises \<open>TypeError\<close> and no text is returned.
\<close>

theorem continuation_without_content_raises:
  "(case generate_response 1 plain_env
           (init [] False None (Some [user_message ''hi'']) None None (Some 100) None None
              (Some 10),
            \<lparr> pending = [text_of ''The answer is'', call_of ''lookup''], trace = [] \<rparr>) of
      None \<Rightarrow> None
    | Some ((b', w'), out) \<Rightarrow>
        Some (out, continuations w', map content (conversation_history b'), pending w'))
   = Some (Inl TypeError, 1, [''hi'', ''The answer is''], [])"
  by (simp add: run_defs respond_defs continuations_def)

text \<open>
  With the constructor's default \<open>response_token_size = None\<close> the branch does not get
  as far: the update that appends the reply raises \<open>TypeError\<close> at the comparison with
  the reserve, and no continuation is requested.
\<close>

lemma unfinished_reply_raises_with_default_reserve:
  "(case generate_response 1 plain_env
           (init [] False None (Some [user_message ''hi'']) None None None None None None,
            \<lparr> pending = [text_of ''The answer is'', text_of '' 42.''], trace = [] \<rparr>) of
      None \<Rightarrow> None
    | Some ((b', w'), out) \<Rightarrow>
        Some (out, continuations w', map content (conversation_history b'), pending w'))
   = Some (Inl TypeError, 0, [''hi'', ''The answer is''], [text_of '' 42.''])"
  by (simp add: run_defs respond_defs continuations_def)

text \<open>
  What the branch does otherwise. For a plain-text completion whose last character is
  none of the three, \<open>generate_response\<close> is the update of the reply followed, when the
  update returns a positive count, by one continuation request, and the result is
  returned without a further look at its last character. Over a whole call, through
  any chain of function calls, an object with \<open>error_callback\<close> unset requests at most
  one continuation.
\<close>

lemma continuation_branch:
  "(error_callback b = Unset \<longrightarrow>
      (case generate_response d E (b, w) of
         None \<Rightarrow> True
       | Some ((b', w'), out) \<Rightarrow> continuations w' \<le> continuations w + 1)) \<and>
   (pending w = resp # rest \<and> function_call resp = None \<and> reply_content resp = Some reply \<and>
    reply \<noteq> [] \<and> last reply \<notin> {CHR ''.'', CHR ''!'', CHR ''?''} \<longrightarrow>
      (case update_conversation_history (tok E) (Some reply) ''assistant'' None
              (b, w\<lparr>pending := rest,
                     trace := trace w @
                       [Completion_requested Primary (conversation_history b)]\<rparr>) of
         (s1, Inl e) \<Rightarrow> generate_response (Suc d) E (b, w) = Some (s1, Inl e)
       | ((b1, w1), Inr available_tokens) \<Rightarrow>
           (if 0 < available_tokens then
              (case rest of
                 [] \<Rightarrow> generate_response (Suc d) E (b, w) = None
               | continuation # rest' \<Rightarrow>
                   generate_response (Suc d) E (b, w) =
                     Some ((b1, w1\<lparr>pending := rest',
                                   trace := trace w1 @
                                     [Completion_requested Continuation
                                        (conversation_history b1)]\<rparr>),
                           (case reply_content continuation of
                              None \<Rightarrow> Inl TypeError
                            | Some continuation_reply \<Rightarrow> Inr (reply @ continuation_reply))))
            else generate_response (Suc d) E (b, w) = Some ((b1, w1), Inr reply))))"
proof (intro conjI impI)
  assume unset: "error_callback b = Unset"
  show "case generate_response d E (b, w) of
         None \<Rightarrow> True
       | Some ((b', w'), out) \<Rightarrow> continuations w' \<le> continuations w + 1"
  proof (cases "generate_response d E (b, w)")
    case None
    then show ?thesis by simp
  next
    case (Some res)
    obtain b' w' out where res: "res = ((b', w'), out)" by (cases res) auto
    from generate_response_keeps[OF unset Some[unfolded res]] Some res show ?thesis by simp
  qed
next
  assume plain: "pending w = resp # rest \<and> function_call resp = None \<and>
    reply_content resp = Some reply \<and> reply \<noteq> [] \<and>
    last reply \<notin> {CHR ''.'', CHR ''!'', CHR ''?''}"
  define w0 where "w0 = w\<lparr>pending := rest,
      trace := trace w @ [Completion_requested Primary (conversation_history b)]\<rparr>"
  obtain b1 w1 r1 where upd:
    "update_conversation_history (tok E) (Some reply) ''assistant'' None (b, w0) = ((b1, w1), r1)"
    by (cases "update_conversation_history (tok E) (Some reply) ''assistant'' None (b, w0)") auto
  from update_keeps(3)[OF upd] have pend: "pending w1 = rest" by (simp add: w0_def)
  from plain have gen: "generate_response (Suc d) E (b, w) =
      finish_reply (tok E) (Some reply) (b, w0)"
    by (simp add: generate_response_body_def create_response_def w0_def)
  from plain upd pend
  show "case update_conversation_history (tok E) (Some reply) ''assistant'' None
              (b, w\<lparr>pending := rest,
                     trace := trace w @
                       [Completion_requested Primary (conversation_history b)]\<rparr>) of
         (s1, Inl e) \<Rightarrow> generate_response (Suc d) E (b, w) = Some (s1, Inl e)
       | ((b1, w1), Inr available_tokens) \<Rightarrow>
           (if 0 < available_tokens then
              (case rest of
                 [] \<Rightarrow> generate_response (Suc d) E (b, w) = None
               | continuation # rest' \<Rightarrow>
                   generate_response (Suc d) E (b, w) =
                     Some ((b1, w1\<lparr>pending := rest',
                                   trace := trace w1 @
                                     [Completion_requested Continuation
                                        (conversation_history b1)]\<rparr>),
                           (case reply_content continuation of
                              None \<Rightarrow> Inl TypeError
                            | Some continuation_reply \<Rightarrow> Inr (reply @ continuation_reply))))
            else generate_response (Suc d) E (b, w) = Some ((b1, w1), Inr reply))"
    unfolding gen w0_def[symmetric]
    by (cases r1)
       (auto simp: finish_reply_def create_response_def split: list.splits option.splits)
qed

text \<open>
  The bound does need the unset attribute. On an object on which \<open>error_callback\<close> was
  assigned from outside, the recursive call sits inside the \<open>try\<close> block: a
  continuation without content raises there, the \<open>except\<close> clause rolls back and asks
  for an apology, and that second round requests a continuation of its own.
\<close>

lemma two_continuations_with_error_callback_assigned:
  "(case generate_response 3 plain_env
           ((init [] False None (Some [user_message ''hi'']) (Some [''roll''])
               (Some [''roll'' \<mapsto> constant_handler ''7'']) (Some 1000) None None (Some 10))
              \<lparr>error_callback := Assigned (Some ''on_error'')\<rparr>,
            \<lparr> pending = [call_of ''roll'', text_of ''abc'', call_of ''roll'', text_of ''xyz'',
                          text_of ''!''],
              trace = [] \<rparr>) of
      None \<Rightarrow> None
    | Some ((b', w'), out) \<Rightarrow> Some (out, continuations w', pending w'))
   = Some (Inr ''xyz!'', 2, [])"
  by (simp add: run_defs respond_defs continuations_def numeral_eq_Suc)

end
